theory Spec2Isabelle
  imports Main "HOL-Library.Sublist"
begin

section \<open>Strings\<close>

text \<open>
  A JavaScript string is a sequence of UTF-16 code units.  The functions of
  \<^verbatim>\<open>scraper.js\<close> inspect strings unit by unit and only ever compare units with
  ASCII characters, so a string is modelled as a \<^typ>\<open>string\<close> whose characters stand
  for the code units below 256.
\<close>

subsection \<open>\<^verbatim>\<open>extractProfileId\<close>\<close>

text \<open>
  \<^verbatim>\<open>
  function extractProfileId(url) {
    try {
      const match = url.match(/\/in\/([^\/\?]+)/);
      if (match && match[1]) {
        return match[1].replace(/\/$/, '');
      }
      return null;
    } catch(e) { console.log(...); return null; }
  }
  \<close>
  The character class \<^verbatim>\<open>[^\/\?]\<close> accepts every code unit except the slash and the
  question mark.
\<close>

definition seg_char :: "char \<Rightarrow> bool" where
  "seg_char c = (c \<noteq> CHR ''/'' \<and> c \<noteq> CHR ''?'')"

text \<open>
  \<^verbatim>\<open>url.match(/\/in\/([^\/\?]+)/)\<close>: the regular expression engine tries the start
  positions from left to right; at a position the pattern matches when the text continues
  with \<^verbatim>\<open>/in/\<close> followed by at least one accepted unit, and the greedy group captures
  the longest run of accepted units.  The result is capture group 1 of the leftmost
  match, \<open>None\<close> when no position matches.
\<close>

fun match_in :: "string \<Rightarrow> string option" where
  "match_in [] = None"
| "match_in (c # cs) =
     (if prefix ''/in/'' (c # cs) \<and> takeWhile seg_char (drop 4 (c # cs)) \<noteq> []
      then Some (takeWhile seg_char (drop 4 (c # cs)))
      else match_in cs)"

text \<open>\<^verbatim>\<open>s.replace(/\/$/, '')\<close>: drop one slash at the very end of the string.\<close>

definition strip_trailing_slash :: "string \<Rightarrow> string" where
  "strip_trailing_slash s = (if s \<noteq> [] \<and> last s = CHR ''/'' then butlast s else s)"

text \<open>
  \<open>None\<close> is JavaScript's \<^verbatim>\<open>null\<close>.  The argument is a string at every call site, on
  which \<^verbatim>\<open>match\<close> and \<^verbatim>\<open>replace\<close> do not throw, so the \<^verbatim>\<open>catch\<close> branch (which
  returns \<^verbatim>\<open>null\<close> as well) is never entered.
\<close>

definition extractProfileId :: "string \<Rightarrow> string option" where
  "extractProfileId url =
     (case match_in url of
        Some m \<Rightarrow> if m \<noteq> [] then Some (strip_trailing_slash m) else None
      | None \<Rightarrow> None)"

section \<open>The world the program runs in\<close>

text \<open>
  The program talks to three collaborators: the filesystem, the clock and the browser
  driver.  Their state is a record that every operation takes and returns; an operation
  that throws returns \<open>Inl\<close> of the exception together with the state it left behind.
\<close>

datatype exn = Error (message: string)

record dirent =
  mtime :: nat
  content :: string

type_synonym listing = "(string \<times> dirent) list"

text \<open>Filesystem requests, browser commands and console lines, as they are issued.\<close>

datatype fsop =
    ReadFile string
  | WriteFile string
  | Mkdir string
  | Readdir string
  | Stat string string
  | Access string string
  | Rename string string string

datatype locator = ById string | ByCss string | ByXpath string

type_synonym element = nat

record cookie =
  cname :: string
  cvalue :: string

datatype call =
    Build
  | Get string
  | WaitLocated locator nat
  | WaitUntil nat
  | FindElement locator
  | FindElements locator
  | SendKeys element "string option"
  | Click element
  | ExecuteClick element
  | GetCookies
  | AddCookie cookie
  | Refresh
  | Quit

datatype msg =
    ErrorGettingDriver string
  | OpeningLoginPage
  | EnteringCredentials
  | LoggingIn
  | LoginSuccessful
  | CookiesSavedTo string
  | TotalCookiesSaved nat
  | ErrorDuringLogin string
  | CouldNotAddCookie string string
  | CookiesLoaded
  | ErrorLoadingCookies string
  | TryingSavedCookies
  | LoginInputNotFound
  | NotLoggedTryingAgain
  | LoginFailed
  | ErrorMsg string
  | NoPdfFileFound
  | AlreadyExists string
  | RenamedTo string
  | ErrorRenamingPdf string
  | CouldNotExtract nat nat string
  | Processing nat nat string
  | UrlLine string
  | NoSecondOverflow
  | ClickingMore
  | FoundSaveToPdf
  | DownloadInitiated
  | DownloadCompleted string
  | DownloadTimeout
  | ErrorPdfButton string
  | DownloadInitiatedAlt
  | AlternativeFailed string
  | ErrorProcessingProfile string
  | FoundUrls "string list"
  | ErrorReadingUrls string
  | DownloadFolderIs string
  | FolderAlreadyExists
  | FailedToCreateDriver
  | AllProcessed
  | PdfsSavedIn string

datatype event = Fs fsop | Call call | Console msg

text \<open>
  \<open>clock\<close> is \<^verbatim>\<open>Date.now()\<close> in milliseconds, \<open>dirs\<close> the folders that hold
  downloads (\<open>None\<close>: the folder does not exist), \<open>textFiles\<close> the files read and written
  whole, \<open>browser\<close> the state of the browser session and of the remote service behind
  it, and \<open>trace\<close> the requests issued so far, oldest first.
\<close>

record 'b world =
  clock :: nat
  dirs :: "string \<Rightarrow> listing option"
  textFiles :: "string \<Rightarrow> string option"
  browser :: 'b
  trace :: "event list"

text \<open>
  What lies outside the source is a parameter: the two values of the process
  environment (\<open>None\<close>: the variable is not set), the behaviour of each driver command,
  the requests the operating system rejects (\<open>fsFault\<close>, by request and time), the files
  the browser's download puts into the folders while the program sleeps (\<open>arrive\<close>), and
  \<^verbatim>\<open>JSON.parse\<close>/\<^verbatim>\<open>JSON.stringify\<close> on cookie lists.
\<close>

record 'b env =
  LINKEDIN_EMAIL :: "string option"
  LINKEDIN_PASSWORD :: "string option"
  d_build :: "'b \<Rightarrow> (exn + unit) \<times> 'b"
  d_get :: "string \<Rightarrow> 'b \<Rightarrow> (exn + unit) \<times> 'b"
  d_waitLocated :: "locator \<Rightarrow> nat \<Rightarrow> 'b \<Rightarrow> (exn + element) \<times> 'b"
  d_waitUntil :: "(string \<Rightarrow> bool) \<Rightarrow> nat \<Rightarrow> 'b \<Rightarrow> (exn + unit) \<times> 'b"
  d_findElement :: "locator \<Rightarrow> 'b \<Rightarrow> (exn + element) \<times> 'b"
  d_findElements :: "locator \<Rightarrow> 'b \<Rightarrow> (exn + element list) \<times> 'b"
  d_sendKeys :: "element \<Rightarrow> string option \<Rightarrow> 'b \<Rightarrow> (exn + unit) \<times> 'b"
  d_click :: "element \<Rightarrow> 'b \<Rightarrow> (exn + unit) \<times> 'b"
  d_executeClick :: "element \<Rightarrow> 'b \<Rightarrow> (exn + unit) \<times> 'b"
  d_getCookies :: "'b \<Rightarrow> (exn + cookie list) \<times> 'b"
  d_addCookie :: "cookie \<Rightarrow> 'b \<Rightarrow> (exn + unit) \<times> 'b"
  d_refresh :: "'b \<Rightarrow> (exn + unit) \<times> 'b"
  d_quit :: "'b \<Rightarrow> (exn + unit) \<times> 'b"
  fsFault :: "fsop \<Rightarrow> nat \<Rightarrow> bool"
  arrive :: "'b \<Rightarrow> nat \<Rightarrow> (string \<Rightarrow> listing option) \<Rightarrow> (string \<Rightarrow> listing option)"
  jsonParse :: "string \<Rightarrow> cookie list option"
  jsonStringify :: "cookie list \<Rightarrow> string"

subsection \<open>Sequencing, \<^verbatim>\<open>throw\<close> and \<^verbatim>\<open>try\<close>/\<^verbatim>\<open>catch\<close>\<close>

type_synonym ('a, 'b) io = "'b world \<Rightarrow> (exn + 'a) \<times> 'b world"

definition io_return :: "'a \<Rightarrow> ('a, 'b) io" where
  "io_return x w = (Inr x, w)"

definition io_throw :: "exn \<Rightarrow> ('a, 'b) io" where
  "io_throw e w = (Inl e, w)"

definition io_bind :: "('a, 'b) io \<Rightarrow> ('a \<Rightarrow> ('c, 'b) io) \<Rightarrow> ('c, 'b) io" where
  "io_bind m f w = (case m w of (Inl e, w') \<Rightarrow> (Inl e, w') | (Inr x, w') \<Rightarrow> f x w')"

definition io_seq :: "('a, 'b) io \<Rightarrow> ('c, 'b) io \<Rightarrow> ('c, 'b) io" where
  "io_seq m n = io_bind m (\<lambda>_. n)"

definition io_catch :: "('a, 'b) io \<Rightarrow> (exn \<Rightarrow> ('a, 'b) io) \<Rightarrow> ('a, 'b) io" where
  "io_catch m h w = (case m w of (Inl e, w') \<Rightarrow> h e w' | (Inr x, w') \<Rightarrow> (Inr x, w'))"

definition emit :: "event \<Rightarrow> 'b world \<Rightarrow> 'b world" where
  "emit e w = w\<lparr>trace := trace w @ [e]\<rparr>"

definition console :: "msg \<Rightarrow> (unit, 'b) io" where
  "console m w = (Inr (), emit (Console m) w)"

subsection \<open>The clock\<close>

text \<open>
  \<^verbatim>\<open>sleep(ms)\<close> resolves after \<open>ms\<close> milliseconds; meanwhile the downloads in flight
  may reach the folders.  Only sleeping lets time pass.
\<close>

definition sleep :: "'b env \<Rightarrow> nat \<Rightarrow> (unit, 'b) io" where
  "sleep env ms w =
     (Inr (), w\<lparr>clock := clock w + ms,
                dirs := arrive env (browser w) (clock w + ms) (dirs w)\<rparr>)"

definition now :: "(nat, 'b) io" where
  "now w = (Inr (clock w), w)"

subsection \<open>The filesystem\<close>

text \<open>
  Every request is recorded and fails when the operating system rejects it; beyond
  that a request fails with \<^verbatim>\<open>ENOENT\<close> when the folder or the file it names does not
  exist.  \<^verbatim>\<open>fs.rename\<close> replaces a file that already has the new name.
\<close>

definition fs_request :: "'b env \<Rightarrow> fsop \<Rightarrow> ('a, 'b) io \<Rightarrow> ('a, 'b) io" where
  "fs_request env op m w =
     (if fsFault env op (clock w) then (Inl (Error ''EIO''), emit (Fs op) w)
      else m (emit (Fs op) w))"

definition fs_readFile :: "'b env \<Rightarrow> string \<Rightarrow> (string, 'b) io" where
  "fs_readFile env p =
     fs_request env (ReadFile p)
       (\<lambda>w. case textFiles w p of None \<Rightarrow> (Inl (Error ''ENOENT''), w) | Some s \<Rightarrow> (Inr s, w))"

definition fs_writeFile :: "'b env \<Rightarrow> string \<Rightarrow> string \<Rightarrow> (unit, 'b) io" where
  "fs_writeFile env p s =
     fs_request env (WriteFile p) (\<lambda>w. (Inr (), w\<lparr>textFiles := (textFiles w)(p \<mapsto> s)\<rparr>))"

text \<open>\<^verbatim>\<open>fs.mkdir(p, { recursive: true })\<close> accepts a folder that exists.\<close>

definition fs_mkdir :: "'b env \<Rightarrow> string \<Rightarrow> (unit, 'b) io" where
  "fs_mkdir env d =
     fs_request env (Mkdir d)
       (\<lambda>w. case dirs w d of
               None \<Rightarrow> (Inr (), w\<lparr>dirs := (dirs w)(d \<mapsto> [])\<rparr>)
             | Some _ \<Rightarrow> (Inr (), w))"

definition fs_readdir :: "'b env \<Rightarrow> string \<Rightarrow> (string list, 'b) io" where
  "fs_readdir env d =
     fs_request env (Readdir d)
       (\<lambda>w. case dirs w d of
               None \<Rightarrow> (Inl (Error ''ENOENT''), w)
             | Some l \<Rightarrow> (Inr (map fst l), w))"

definition lookup_file :: "'b world \<Rightarrow> string \<Rightarrow> string \<Rightarrow> dirent option" where
  "lookup_file w d f = (case dirs w d of None \<Rightarrow> None | Some l \<Rightarrow> map_of l f)"

definition fs_stat :: "'b env \<Rightarrow> string \<Rightarrow> string \<Rightarrow> (nat, 'b) io" where
  "fs_stat env d f =
     fs_request env (Stat d f)
       (\<lambda>w. case lookup_file w d f of
               None \<Rightarrow> (Inl (Error ''ENOENT''), w)
             | Some x \<Rightarrow> (Inr (mtime x), w))"

definition fs_access :: "'b env \<Rightarrow> string \<Rightarrow> string \<Rightarrow> (unit, 'b) io" where
  "fs_access env d f =
     fs_request env (Access d f)
       (\<lambda>w. case lookup_file w d f of
               None \<Rightarrow> (Inl (Error ''ENOENT''), w)
             | Some x \<Rightarrow> (Inr (), w))"

definition moved :: "string \<Rightarrow> string \<Rightarrow> dirent \<Rightarrow> listing \<Rightarrow> listing" where
  "moved src dst x l =
     (if src = dst then l
      else filter (\<lambda>(n, _). n \<noteq> src \<and> n \<noteq> dst) l @ [(dst, x)])"

definition fs_rename :: "'b env \<Rightarrow> string \<Rightarrow> string \<Rightarrow> string \<Rightarrow> (unit, 'b) io" where
  "fs_rename env d src dst =
     fs_request env (Rename d src dst)
       (\<lambda>w. case dirs w d of
               None \<Rightarrow> (Inl (Error ''ENOENT''), w)
             | Some l \<Rightarrow>
                 (case map_of l src of
                    None \<Rightarrow> (Inl (Error ''ENOENT''), w)
                  | Some x \<Rightarrow> (Inr (), w\<lparr>dirs := (dirs w)(d \<mapsto> moved src dst x l)\<rparr>)))"

section \<open>The artifact resolver\<close>

text \<open>
  \<^verbatim>\<open>f.endsWith('.pdf') && !f.endsWith('.crdownload')\<close>, the filter of both
  \<^verbatim>\<open>waitForDownload\<close> and \<^verbatim>\<open>renameDownloadedPdf\<close>.
\<close>

definition isPdf :: "string \<Rightarrow> bool" where
  "isPdf f = (suffix ''.pdf'' f \<and> \<not> suffix ''.crdownload'' f)"

text \<open>
  The objects both functions sort.  The \<^verbatim>\<open>path\<close> that \<^verbatim>\<open>renameDownloadedPdf\<close> adds is
  the folder joined with the name; here a file is addressed by its folder and its name.
\<close>

record pdfStat =
  name :: string
  time :: nat

text \<open>
  \<^verbatim>\<open>Promise.all(pdfFiles.map(async f => ({ name: f, time: (await fs.stat(...)).mtime.getTime() })))\<close>:
  one \<^verbatim>\<open>stat\<close> per file, rejected as a whole when one of them is rejected.
\<close>

fun statAll :: "'b env \<Rightarrow> string \<Rightarrow> string list \<Rightarrow> (pdfStat list, 'b) io" where
  "statAll env d [] = io_return []"
| "statAll env d (f # fs) =
     io_bind (fs_stat env d f) (\<lambda>t.
     io_bind (statAll env d fs) (\<lambda>ss.
     io_return (\<lparr>name = f, time = t\<rparr> # ss)))"

text \<open>
  \<^verbatim>\<open>pdfStats.sort((a, b) => b.time - a.time)\<close>.  \<^verbatim>\<open>Array.prototype.sort\<close> is stable:
  elements the comparator does not separate keep their order.
\<close>

definition byTimeDesc :: "pdfStat \<Rightarrow> pdfStat \<Rightarrow> int" where
  "byTimeDesc a b = int (time b) - int (time a)"

fun insert_sorted :: "('a \<Rightarrow> 'a \<Rightarrow> int) \<Rightarrow> 'a \<Rightarrow> 'a list \<Rightarrow> 'a list" where
  "insert_sorted cmp x [] = [x]"
| "insert_sorted cmp x (y # ys) =
     (if cmp x y \<le> 0 then x # y # ys else y # insert_sorted cmp x ys)"

definition array_sort :: "('a \<Rightarrow> 'a \<Rightarrow> int) \<Rightarrow> 'a list \<Rightarrow> 'a list" where
  "array_sort cmp xs = foldr (insert_sorted cmp) xs []"

text \<open>
  The body of the \<^verbatim>\<open>try\<close> block inside the loop of \<^verbatim>\<open>waitForDownload\<close>: \<open>Some\<close> of
  the name it returns, \<open>None\<close> when it falls through to the \<^verbatim>\<open>sleep\<close>.  Reading
  \<^verbatim>\<open>pdfStats[0].name\<close> of an empty array throws a \<^verbatim>\<open>TypeError\<close>.
\<close>

definition scanDownloads :: "'b env \<Rightarrow> string \<Rightarrow> (string option, 'b) io" where
  "scanDownloads env downloadPath =
     io_bind (fs_readdir env downloadPath) (\<lambda>files.
       let pdfFiles = filter isPdf files in
       if length pdfFiles > 0 then
         io_bind (statAll env downloadPath pdfFiles) (\<lambda>pdfStats.
           case array_sort byTimeDesc pdfStats of
             [] \<Rightarrow> io_throw (Error ''TypeError'')
           | s # _ \<Rightarrow> io_return (Some (name s)))
       else io_return None)"

text \<open>
  \<^verbatim>\<open>
  while (Date.now() - startTime < timeout) {
    try { ... return pdfStats[0].name ... } catch(e) { }
    await sleep(500);
  }
  return null;
  \<close>
\<close>

function waitLoop :: "'b env \<Rightarrow> string \<Rightarrow> nat \<Rightarrow> nat \<Rightarrow> (string option, 'b) io" where
  "waitLoop env downloadPath timeout startTime w =
     (if clock w - startTime < timeout then
        (case io_catch (scanDownloads env downloadPath) (\<lambda>e. io_return None) w of
           (Inr (Some f), w') \<Rightarrow> (Inr (Some f), w')
         | (_, w') \<Rightarrow> waitLoop env downloadPath timeout startTime (snd (sleep env 500 w')))
      else (Inr None, w))"
  by pat_completeness auto

lemma clock_fs_request:
  assumes "\<And>w. clock (snd (m w)) = clock w"
  shows "clock (snd (fs_request env op m w)) = clock w"
  using assms [of "emit (Fs op) w"] by (simp add: fs_request_def emit_def)

lemma clock_io_bind:
  assumes "\<And>w. clock (snd (m w)) = clock w" and "\<And>x w. clock (snd (f x w)) = clock w"
  shows "clock (snd (io_bind m f w)) = clock w"
proof (cases "m w")
  case (Pair r w')
  with assms(1) [of w] have c: "clock w' = clock w" by simp
  show ?thesis
    using Pair c assms(2) by (cases r) (simp_all add: io_bind_def)
qed

lemma clock_fs_stat: "clock (snd (fs_stat env d f w)) = clock w"
  unfolding fs_stat_def
  by (rule clock_fs_request) (simp split: option.splits)

lemma clock_fs_readdir: "clock (snd (fs_readdir env d w)) = clock w"
  unfolding fs_readdir_def
  by (rule clock_fs_request) (simp split: option.splits)

lemma clock_statAll: "clock (snd (statAll env d fs w)) = clock w"
proof (induction fs arbitrary: w)
  case Nil
  show ?case by (simp add: io_return_def)
next
  case (Cons f fs)
  show ?case
    unfolding statAll.simps
    by (intro clock_io_bind clock_fs_stat Cons.IH) (simp add: io_return_def)
qed

lemma clock_scanDownloads: "clock (snd (scanDownloads env d w)) = clock w"
  unfolding scanDownloads_def Let_def
  by (intro clock_io_bind clock_fs_readdir)
     (auto simp: io_return_def io_throw_def intro!: clock_io_bind clock_statAll split: list.splits)

lemma clock_poll:
  "clock (snd (io_catch (scanDownloads env d) (\<lambda>e. io_return None) w)) = clock w"
  using clock_scanDownloads [of env d w]
  by (cases "scanDownloads env d w") (auto simp: io_catch_def io_return_def split: sum.splits)

lemma poll_decreases:
  assumes "clock w - startTime < timeout"
    and "(x, w') = io_catch (scanDownloads env d) (\<lambda>e. io_return None) w"
  shows "startTime + timeout - clock (snd (sleep env 500 w')) < startTime + timeout - clock w"
proof -
  from assms(2) have "clock w' = clock w"
    using clock_poll [of env d w] by (metis snd_conv)
  with assms(1) show ?thesis by (simp add: sleep_def)
qed

termination waitLoop
  by (relation "measure (\<lambda>(env, downloadPath, timeout, startTime, w).
                    startTime + timeout - clock w)")
     (simp_all add: poll_decreases)

declare waitLoop.simps [simp del]

text \<open>\<^verbatim>\<open>waitForDownload(downloadPath, timeout = 30000)\<close>; \<open>None\<close> is \<^verbatim>\<open>null\<close>.\<close>

definition waitForDownload :: "'b env \<Rightarrow> string \<Rightarrow> nat \<Rightarrow> (string option, 'b) io" where
  "waitForDownload env downloadPath timeout w =
     waitLoop env downloadPath timeout (clock w) w"

text \<open>The decimal numeral a template literal prints for a non-negative integer.\<close>

function decimal :: "nat \<Rightarrow> string" where
  "decimal n =
     (if n < 10 then [''0123456789'' ! n]
      else decimal (n div 10) @ [''0123456789'' ! (n mod 10)])"
  by pat_completeness auto
termination
  by (relation "measure (\<lambda>n. n)") auto

declare decimal.simps [simp del]

text \<open>
  \<^verbatim>\<open>renameDownloadedPdf(profileId, downloadFolder)\<close>.  The inner \<^verbatim>\<open>try\<close> holds the
  \<^verbatim>\<open>fs.access\<close> probe and the rename to the timestamped name; its \<^verbatim>\<open>catch\<close> renames
  to \<^verbatim>\<open><profileId>.pdf\<close>.
\<close>

definition renameDownloadedPdf :: "'b env \<Rightarrow> string \<Rightarrow> string \<Rightarrow> (bool, 'b) io" where
  "renameDownloadedPdf env profileId downloadFolder =
     io_catch
       (io_bind (fs_readdir env downloadFolder) (\<lambda>files.
          let pdfFiles = filter isPdf files in
          if length pdfFiles = 0 then
            io_seq (console NoPdfFileFound) (io_return False)
          else
            io_bind (statAll env downloadFolder pdfFiles) (\<lambda>pdfStats.
              case array_sort byTimeDesc pdfStats of
                [] \<Rightarrow> io_throw (Error ''TypeError'')
              | mostRecentPdf # _ \<Rightarrow>
                  let newFileName = profileId @ ''.pdf'' in
                  io_catch
                    (io_seq (fs_access env downloadFolder newFileName)
                    (io_seq (console (AlreadyExists newFileName))
                    (io_bind now (\<lambda>timestamp.
                       let timestampedName = profileId @ ''_'' @ decimal timestamp @ ''.pdf'' in
                       io_seq (fs_rename env downloadFolder (name mostRecentPdf) timestampedName)
                      (io_seq (console (RenamedTo timestampedName))
                              (io_return True))))))
                    (\<lambda>e.
                       io_seq (fs_rename env downloadFolder (name mostRecentPdf) newFileName)
                      (io_seq (console (RenamedTo newFileName))
                              (io_return True))))))
       (\<lambda>e. io_seq (console (ErrorRenamingPdf (message e))) (io_return False))"

section \<open>Configuration\<close>

text \<open>The paths of the configuration block, relative to the directory of the script.\<close>

definition COOKIES_FILE :: string where
  "COOKIES_FILE = ''linkedin/cookies.json''"

definition profileURLsPath :: string where
  "profileURLsPath = ''linkedin/profiles.csv''"

definition DOWNLOAD_FOLDER :: string where
  "DOWNLOAD_FOLDER = ''linkedin/pdfs''"

section \<open>The browser driver\<close>

text \<open>A driver command acts on the browser session and is recorded.\<close>

definition driver_call :: "call \<Rightarrow> ('b \<Rightarrow> (exn + 'a) \<times> 'b) \<Rightarrow> ('a, 'b) io" where
  "driver_call c f w =
     (case f (browser w) of (r, b) \<Rightarrow> (r, emit (Call c) (w\<lparr>browser := b\<rparr>)))"

text \<open>The selectors, with their double quotes (code unit 34).\<close>

definition quoted :: "string \<Rightarrow> string" where
  "quoted s = [char_of (34::nat)] @ s @ [char_of (34::nat)]"

definition submitButton :: locator where
  "submitButton = ByCss (''button[type='' @ quoted ''submit'' @ '']'')"

definition overflowAction :: locator where
  "overflowAction =
     ByXpath (''//button[contains(@id, '' @ quoted ''profile-overflow-action'' @ '')]'')"

definition savePdfButton :: locator where
  "savePdfButton =
     ByXpath (''//div[@role='' @ quoted ''button'' @ '' and contains(., ''
              @ quoted ''Save to PDF'' @ '')]'')"

definition savePdfAnywhere :: locator where
  "savePdfAnywhere = ByXpath (''//*[contains(text(), '' @ quoted ''Save to PDF'' @ '')]'')"

text \<open>\<^verbatim>\<open>getDriver\<close>: \<open>True\<close> is the driver, \<open>False\<close> is \<^verbatim>\<open>null\<close>.\<close>

definition getDriver :: "'b env \<Rightarrow> (bool, 'b) io" where
  "getDriver env =
     io_catch
       (io_seq (driver_call Build (d_build env)) (io_return True))
       (\<lambda>e. io_seq (console (ErrorGettingDriver (message e))) (io_return False))"

section \<open>The authenticator\<close>

definition postLoginUrl :: "string \<Rightarrow> bool" where
  "postLoginUrl url =
     (sublist ''linkedin.com/feed'' url \<or> sublist ''linkedin.com/check/add-phone'' url)"

definition loginToLinkedIn :: "'b env \<Rightarrow> (bool, 'b) io" where
  "loginToLinkedIn env =
     io_catch
       (io_seq (console OpeningLoginPage)
       (io_seq (driver_call (Get ''https://www.linkedin.com/login'')
                  (d_get env ''https://www.linkedin.com/login''))
       (io_seq (console EnteringCredentials)
       (io_bind (driver_call (WaitLocated (ById ''username'') 10000)
                  (d_waitLocated env (ById ''username'') 10000)) (\<lambda>emailInput.
        io_seq (driver_call (SendKeys emailInput (LINKEDIN_EMAIL env))
                  (d_sendKeys env emailInput (LINKEDIN_EMAIL env)))
       (io_bind (driver_call (FindElement (ById ''password''))
                  (d_findElement env (ById ''password''))) (\<lambda>passwordInput.
        io_seq (driver_call (SendKeys passwordInput (LINKEDIN_PASSWORD env))
                  (d_sendKeys env passwordInput (LINKEDIN_PASSWORD env)))
       (io_bind (driver_call (FindElement submitButton)
                  (d_findElement env submitButton)) (\<lambda>loginButton.
        io_seq (driver_call (Click loginButton) (d_click env loginButton))
       (io_seq (console LoggingIn)
       (io_seq (driver_call (WaitUntil 15000) (d_waitUntil env postLoginUrl 15000))
       (io_seq (console LoginSuccessful)
       (io_bind (driver_call GetCookies (d_getCookies env)) (\<lambda>cookies.
        io_seq (fs_writeFile env COOKIES_FILE (jsonStringify env cookies))
       (io_seq (console (CookiesSavedTo COOKIES_FILE))
       (io_seq (console (TotalCookiesSaved (length cookies)))
       (io_seq (sleep env 3000)
               (io_return True))))))))))))))))))
       (\<lambda>error. io_seq (console (ErrorDuringLogin (message error))) (io_return False))"

text \<open>The loop of \<^verbatim>\<open>loadCookies\<close>: a cookie the browser refuses is reported and skipped.\<close>

fun addCookies :: "'b env \<Rightarrow> cookie list \<Rightarrow> (unit, 'b) io" where
  "addCookies env [] = io_return ()"
| "addCookies env (c # cs) =
     io_seq (io_catch (driver_call (AddCookie c) (d_addCookie env c))
               (\<lambda>err. console (CouldNotAddCookie (cname c) (message err))))
            (addCookies env cs)"

text \<open>
  \<^verbatim>\<open>loadCookies\<close> reports what goes wrong and throws it again.  \<^verbatim>\<open>JSON.parse\<close>
  throws a \<^verbatim>\<open>SyntaxError\<close> on a text that is no cookie list.
\<close>

definition loadCookies :: "'b env \<Rightarrow> (unit, 'b) io" where
  "loadCookies env =
     io_catch
       (io_bind (fs_readFile env COOKIES_FILE) (\<lambda>cookiesData.
        io_bind (case jsonParse env cookiesData of
                   None \<Rightarrow> io_throw (Error ''SyntaxError'')
                 | Some cookies \<Rightarrow> io_return cookies) (\<lambda>cookies.
        io_seq (driver_call (Get ''https://www.linkedin.com'')
                  (d_get env ''https://www.linkedin.com''))
       (io_seq (addCookies env cookies)
       (io_seq (console CookiesLoaded)
               (driver_call Refresh (d_refresh env)))))))
       (\<lambda>error. io_seq (console (ErrorLoadingCookies (message error))) (io_throw error))"

text \<open>
  \<^verbatim>\<open>loginWithSavedCookies\<close> returns \<^verbatim>\<open>true\<close>, \<^verbatim>\<open>false\<close> or, after its
  \<^verbatim>\<open>catch\<close> block, nothing: \<open>None\<close> is \<^verbatim>\<open>undefined\<close>.
\<close>

definition loginWithSavedCookies :: "'b env \<Rightarrow> (bool option, 'b) io" where
  "loginWithSavedCookies env =
     io_catch
       (io_seq (loadCookies env)
       (io_seq (driver_call (Get ''https://www.linkedin.com/feed/'')
                  (d_get env ''https://www.linkedin.com/feed/''))
       (io_seq (console TryingSavedCookies)
       (io_bind (io_catch
                   (io_bind (driver_call (WaitLocated (ById ''username'') 10000)
                               (d_waitLocated env (ById ''username'') 10000))
                            (\<lambda>el. io_return (Some el)))
                   (\<lambda>error. io_seq (console LoginInputNotFound) (io_return None)))
                (\<lambda>emailInput.
          case emailInput of
            Some el \<Rightarrow>
              io_seq (console NotLoggedTryingAgain)
             (io_bind (loginToLinkedIn env) (\<lambda>success.
                if \<not> success then io_seq (console LoginFailed) (io_return (Some False))
                else io_seq (console LoginSuccessful) (io_return (Some True))))
          | None \<Rightarrow> io_seq (console LoginSuccessful) (io_return (Some True)))))))
       (\<lambda>error. io_seq (console (ErrorMsg (message error))) (io_return None))"

section \<open>The target list\<close>

text \<open>
  \<^verbatim>\<open>String.prototype.trim\<close> removes white space and line terminators at both ends;
  below 256 these are the code units 9 to 13, 32 and 160.
\<close>

definition is_space :: "char \<Rightarrow> bool" where
  "is_space c = (of_char c \<in> {9, 10, 11, 12, 13, 32, 160 :: nat})"

definition trim :: "string \<Rightarrow> string" where
  "trim s = rev (dropWhile is_space (rev (dropWhile is_space s)))"

text \<open>
  \<^verbatim>\<open>s.split(/[\n,]+/)\<close>: the pieces between the maximal runs of line feeds and
  commas; a run at either end leaves an empty piece there, and the empty string splits
  into one empty piece.
\<close>

definition is_sep :: "char \<Rightarrow> bool" where
  "is_sep c = (c = CHR 0x0A \<or> c = CHR '','')"

function split_seps :: "string \<Rightarrow> string list" where
  "split_seps s =
     (let piece = takeWhile (\<lambda>c. \<not> is_sep c) s;
          rest = dropWhile (\<lambda>c. \<not> is_sep c) s
      in if rest = [] then [piece] else piece # split_seps (dropWhile is_sep rest))"
  by pat_completeness auto

lemma split_seps_shorter:
  assumes "dropWhile (\<lambda>c. \<not> is_sep c) s \<noteq> []"
  shows "length (dropWhile is_sep (dropWhile (\<lambda>c. \<not> is_sep c) s)) < length s"
proof -
  obtain c r where r: "dropWhile (\<lambda>c. \<not> is_sep c) s = c # r"
    using assms by (cases "dropWhile (\<lambda>c. \<not> is_sep c) s") auto
  then have "is_sep c" using hd_dropWhile [of "\<lambda>c. \<not> is_sep c" s] by auto
  with r have "length (dropWhile is_sep (dropWhile (\<lambda>c. \<not> is_sep c) s)) \<le> length r"
    by (simp add: length_dropWhile_le)
  also have "length r < length (dropWhile (\<lambda>c. \<not> is_sep c) s)" using r by simp
  also have "\<dots> \<le> length s" by (rule length_dropWhile_le)
  finally show ?thesis .
qed

termination split_seps
  by (relation "measure length") (simp_all add: split_seps_shorter)

declare split_seps.simps [simp del]

text \<open>
  \<^verbatim>\<open>urlsData.trim().split(/[\n,]+/).map(url => url.trim()).filter(url => url)\<close>: the
  filter keeps the non-empty strings.
\<close>

definition parseUrls :: "string \<Rightarrow> string list" where
  "parseUrls urlsData = filter (\<lambda>url. url \<noteq> []) (map trim (split_seps (trim urlsData)))"

definition getProfileURLs :: "'b env \<Rightarrow> (string list, 'b) io" where
  "getProfileURLs env =
     io_catch
       (io_bind (fs_readFile env profileURLsPath) (\<lambda>urlsData.
          let urls = parseUrls urlsData in
          io_seq (console (FoundUrls urls)) (io_return urls)))
       (\<lambda>e. io_seq (console (ErrorReadingUrls (message e))) (io_return []))"

section \<open>The orchestrator\<close>

text \<open>A string or \<^verbatim>\<open>null\<close> in a condition: \<^verbatim>\<open>null\<close> and the empty string are false.\<close>

definition truthy :: "string option \<Rightarrow> bool" where
  "truthy v = (case v of None \<Rightarrow> False | Some s \<Rightarrow> s \<noteq> [])"

text \<open>
  Lines 300 to 312: wait for the download and rename it, or report the timeout.
\<close>

definition downloadReported :: "'b env \<Rightarrow> string \<Rightarrow> (unit, 'b) io" where
  "downloadReported env profileId =
     io_bind (waitForDownload env DOWNLOAD_FOLDER 30000) (\<lambda>downloadedFile.
       if truthy downloadedFile then
         io_seq (console (DownloadCompleted (the downloadedFile)))
        (io_seq (sleep env 2000)
        (io_seq (renameDownloadedPdf env profileId DOWNLOAD_FOLDER)
                (io_return ())))
       else console DownloadTimeout)"

text \<open>The body of the inner \<^verbatim>\<open>try\<close>: the menu, the button, the download.\<close>

definition primaryPath :: "'b env \<Rightarrow> string \<Rightarrow> element \<Rightarrow> (unit, 'b) io" where
  "primaryPath env profileId secondOverflowAction =
     io_seq (console ClickingMore)
    (io_seq (driver_call (Click secondOverflowAction) (d_click env secondOverflowAction))
    (io_seq (sleep env 1000)
    (io_bind (driver_call (FindElement savePdfButton) (d_findElement env savePdfButton))
             (\<lambda>pdfButton.
     io_seq (console FoundSaveToPdf)
    (io_seq (driver_call (ExecuteClick pdfButton) (d_executeClick env pdfButton))
    (io_seq (console DownloadInitiated)
            (downloadReported env profileId)))))))"

text \<open>The body of the \<^verbatim>\<open>try\<close> inside its \<^verbatim>\<open>catch\<close>: the looser selector.\<close>

definition alternativePath :: "'b env \<Rightarrow> string \<Rightarrow> (unit, 'b) io" where
  "alternativePath env profileId =
     io_bind (driver_call (FindElement savePdfAnywhere) (d_findElement env savePdfAnywhere))
             (\<lambda>pdfButtonAlt.
     io_seq (driver_call (ExecuteClick pdfButtonAlt) (d_executeClick env pdfButtonAlt))
    (io_seq (console DownloadInitiatedAlt)
    (io_bind (waitForDownload env DOWNLOAD_FOLDER 30000) (\<lambda>downloadedFile.
       if truthy downloadedFile then
         io_seq (sleep env 2000)
        (io_seq (renameDownloadedPdf env profileId DOWNLOAD_FOLDER)
                (io_return ()))
       else io_return ()))))"

text \<open>\<^verbatim>\<open>overflowActions[1] ?? null\<close>\<close>

definition second :: "'a list \<Rightarrow> 'a option" where
  "second xs = (case xs of _ # x # _ \<Rightarrow> Some x | _ \<Rightarrow> None)"

text \<open>
  One round of the loop of \<^verbatim>\<open>proccessProfiles\<close>, for the index \<open>i\<close>; a
  \<^verbatim>\<open>continue\<close> ends the round.
\<close>

definition processProfile :: "'b env \<Rightarrow> string list \<Rightarrow> nat \<Rightarrow> (unit, 'b) io" where
  "processProfile env URLs i =
     (let url = trim (URLs ! i) in
      if url = [] then io_return ()
      else
        let profileId = extractProfileId url in
        if \<not> truthy profileId then
          console (CouldNotExtract (i + 1) (length URLs) url)
        else
          io_seq (console (Processing (i + 1) (length URLs) (the profileId)))
         (io_seq (console (UrlLine url))
         (io_catch
            (io_seq (driver_call (Get url) (d_get env url))
            (io_seq (sleep env 3000)
            (io_bind (driver_call (FindElements overflowAction)
                        (d_findElements env overflowAction)) (\<lambda>overflowActions.
               case second overflowActions of
                 None \<Rightarrow> console NoSecondOverflow
               | Some secondOverflowAction \<Rightarrow>
                   io_catch
                     (primaryPath env (the profileId) secondOverflowAction)
                     (\<lambda>e. io_seq (console (ErrorPdfButton (message e)))
                            (io_catch
                               (alternativePath env (the profileId))
                               (\<lambda>e2. console (AlternativeFailed (message e2)))))))))
            (\<lambda>e. console (ErrorProcessingProfile (message e))))))"

text \<open>\<^verbatim>\<open>for(let i = 0; i < URLs.length; i++)\<close>, from the index \<open>i\<close> on.\<close>

function profilesLoop :: "'b env \<Rightarrow> string list \<Rightarrow> nat \<Rightarrow> (unit, 'b) io" where
  "profilesLoop env URLs i w =
     (if i < length URLs then
        (case processProfile env URLs i w of
           (Inl e, w') \<Rightarrow> (Inl e, w')
         | (Inr _, w') \<Rightarrow> profilesLoop env URLs (Suc i) w')
      else (Inr (), w))"
  by pat_completeness auto
termination
  by (relation "measure (\<lambda>(env, URLs, i, w). length URLs - i)") auto

declare profilesLoop.simps [simp del]

definition proccessProfiles :: "'b env \<Rightarrow> (unit, 'b) io" where
  "proccessProfiles env = io_bind (getProfileURLs env) (\<lambda>URLs. profilesLoop env URLs 0)"

text \<open>
  \<^verbatim>\<open>main\<close>.  \<^verbatim>\<open>if(!isLogged)\<close> takes \<^verbatim>\<open>false\<close> and \<^verbatim>\<open>undefined\<close> alike.
\<close>

definition main :: "'b env \<Rightarrow> (unit, 'b) io" where
  "main env =
     io_seq (io_catch
               (io_seq (fs_mkdir env DOWNLOAD_FOLDER) (console (DownloadFolderIs DOWNLOAD_FOLDER)))
               (\<lambda>e. console FolderAlreadyExists))
    (io_bind (getDriver env) (\<lambda>driver.
       if \<not> driver then console FailedToCreateDriver
       else
         io_bind (loginWithSavedCookies env) (\<lambda>isLogged.
           if isLogged \<noteq> Some True then
             io_seq (console LoginFailed)
            (io_seq (sleep env 5000)
                    (driver_call Quit (d_quit env)))
           else
             io_seq (sleep env 3000)
            (io_seq (proccessProfiles env)
            (io_seq (console AllProcessed)
            (io_seq (console (PdfsSavedIn DOWNLOAD_FOLDER))
            (io_seq (sleep env 5000)
                    (driver_call Quit (d_quit env)))))))))"

section \<open>Observations on a run\<close>

text \<open>
  A computation does not throw when it returns a value from every state, and it
  appends events of a kind when the trace it leaves is the one it found followed by
  events of that kind only.
\<close>

definition nothrow :: "('a, 'b) io \<Rightarrow> bool" where
  "nothrow m = (\<forall>w. \<exists>x w'. m w = (Inr x, w'))"

definition appends :: "(event \<Rightarrow> bool) \<Rightarrow> ('a, 'b) io \<Rightarrow> bool" where
  "appends P m = (\<forall>w. \<exists>es. trace (snd (m w)) = trace w @ es \<and> list_all P es)"

named_theorems run_intros

text \<open>
  The targets a run takes up, in order: each round of the loop that gets past the
  blank check prints the URL, either in the line that reports an unresolvable identifier
  or in the \<^verbatim>\<open>URL:\<close> line.  The pages a run navigates to are the arguments of
  \<^verbatim>\<open>driver.get\<close>.
\<close>

fun target_of :: "event \<Rightarrow> string list" where
  "target_of (Console (UrlLine u)) = [u]"
| "target_of (Console (CouldNotExtract i n u)) = [u]"
| "target_of _ = []"

fun visited :: "event \<Rightarrow> string list" where
  "visited (Call (Get u)) = [u]"
| "visited _ = []"

definition attempted :: "event list \<Rightarrow> string list" where
  "attempted es = concat (map target_of es)"

definition navigated :: "event list \<Rightarrow> string list" where
  "navigated es = concat (map visited es)"

definition quiet :: "event \<Rightarrow> bool" where
  "quiet e = (target_of e = [] \<and> visited e = [])"

text \<open>A computation finishes with an event when that event is the last of the trace it leaves.\<close>

definition finishes_with :: "event \<Rightarrow> ('a, 'b) io \<Rightarrow> bool" where
  "finishes_with e m = (\<forall>w. trace (snd (m w)) \<noteq> [] \<and> last (trace (snd (m w))) = e)"

text \<open>What \<^verbatim>\<open>main\<close> does once it holds a driver.\<close>

definition withDriver :: "'b env \<Rightarrow> (unit, 'b) io" where
  "withDriver env =
     io_bind (loginWithSavedCookies env) (\<lambda>isLogged.
       if isLogged \<noteq> Some True then
         io_seq (console LoginFailed)
        (io_seq (sleep env 5000)
                (driver_call Quit (d_quit env)))
       else
         io_seq (sleep env 3000)
        (io_seq (proccessProfiles env)
        (io_seq (console AllProcessed)
        (io_seq (console (PdfsSavedIn DOWNLOAD_FOLDER))
        (io_seq (sleep env 5000)
                (driver_call Quit (d_quit env)))))))"

section \<open>Observations on the download folder\<close>

text \<open>
  The qualifying candidates of a folder, the modification time \<^verbatim>\<open>fs.stat\<close> reports
  for a name, and the files a list of events asks to rename.
\<close>

definition pdfsIn :: "'b world \<Rightarrow> string \<Rightarrow> string list" where
  "pdfsIn w d = (case dirs w d of None \<Rightarrow> [] | Some l \<Rightarrow> filter isPdf (map fst l))"

definition mtimeIn :: "'b world \<Rightarrow> string \<Rightarrow> string \<Rightarrow> nat" where
  "mtimeIn w d f = (case lookup_file w d f of None \<Rightarrow> 0 | Some x \<Rightarrow> mtime x)"

fun rename_source :: "event \<Rightarrow> string list" where
  "rename_source (Fs (Rename d src dst)) = [src]"
| "rename_source _ = []"

definition renamed :: "event list \<Rightarrow> string list" where
  "renamed es = concat (map rename_source es)"

text \<open>The state \<^verbatim>\<open>sleep(ms)\<close> leaves.\<close>

definition sleeping :: "'b env \<Rightarrow> nat \<Rightarrow> 'b world \<Rightarrow> 'b world" where
  "sleeping env ms w = snd (sleep env ms w)"

section \<open>Sample environments\<close>

text \<open>
  A driver on which every command succeeds and finds nothing, an operating system that
  rejects no request, no download, no credentials; and a machine with no file at all.
\<close>

definition quietEnv :: "unit env" where
  "quietEnv =
     \<lparr> LINKEDIN_EMAIL = None, LINKEDIN_PASSWORD = None,
       d_build = (\<lambda>b. (Inr (), b)),
       d_get = (\<lambda>url b. (Inr (), b)),
       d_waitLocated = (\<lambda>l t b. (Inl (Error ''TimeoutError''), b)),
       d_waitUntil = (\<lambda>c t b. (Inl (Error ''TimeoutError''), b)),
       d_findElement = (\<lambda>l b. (Inl (Error ''NoSuchElementError''), b)),
       d_findElements = (\<lambda>l b. (Inr [], b)),
       d_sendKeys = (\<lambda>e k b. (Inr (), b)),
       d_click = (\<lambda>e b. (Inr (), b)),
       d_executeClick = (\<lambda>e b. (Inr (), b)),
       d_getCookies = (\<lambda>b. (Inr [], b)),
       d_addCookie = (\<lambda>c b. (Inr (), b)),
       d_refresh = (\<lambda>b. (Inr (), b)),
       d_quit = (\<lambda>b. (Inr (), b)),
       fsFault = (\<lambda>op t. False),
       arrive = (\<lambda>b t d. d),
       jsonParse = (\<lambda>s. None),
       jsonStringify = (\<lambda>cs. []) \<rparr>"

definition emptyWorld :: "unit world" where
  "emptyWorld =
     \<lparr> clock = 0, dirs = (\<lambda>d. None), textFiles = (\<lambda>p. None), browser = (), trace = [] \<rparr>"

text \<open>A download folder with two finished exports and one download in progress.\<close>

definition sampleWorld :: "unit world" where
  "sampleWorld =
     emptyWorld\<lparr>clock := 1700000000000,
       dirs := (\<lambda>d. if d = DOWNLOAD_FOLDER then
                        Some [(''old.pdf'', \<lparr>mtime = 1000, content = ''first''\<rparr>),
                              (''Profile.pdf'', \<lparr>mtime = 2000, content = ''second''\<rparr>),
                              (''Profile.pdf.crdownload'', \<lparr>mtime = 3000, content = ''part''\<rparr>)]
                      else None)\<rparr>"

text \<open>
  An operating system that rejects a file name of more than 255 characters
  (\<^verbatim>\<open>ENAMETOOLONG\<close>), and a download folder that holds an earlier export of a profile
  whose identifier has 245 characters next to the download that has just finished.
\<close>

definition NAME_MAX :: nat where
  "NAME_MAX = 255"

definition nameTooLong :: "fsop \<Rightarrow> bool" where
  "nameTooLong op =
     (case op of
        Rename d src dst \<Rightarrow> NAME_MAX < length src \<or> NAME_MAX < length dst
      | Stat d f \<Rightarrow> NAME_MAX < length f
      | Access d f \<Rightarrow> NAME_MAX < length f
      | _ \<Rightarrow> False)"

definition posixEnv :: "unit env" where
  "posixEnv = quietEnv\<lparr>fsFault := (\<lambda>op t. nameTooLong op)\<rparr>"

definition longProfileId :: string where
  "longProfileId = replicate 245 CHR ''a''"

definition collisionWorld :: "unit world" where
  "collisionWorld =
     emptyWorld\<lparr>clock := 1700000000000,
       dirs := (\<lambda>d. if d = DOWNLOAD_FOLDER then
                        Some [(longProfileId @ ''.pdf'', \<lparr>mtime = 1000, content = ''first export''\<rparr>),
                              (''Profile.pdf'', \<lparr>mtime = 2000, content = ''second export''\<rparr>)]
                      else None)\<rparr>"

section \<open>Identifier extraction\<close>

lemma prefix_in_cut:
  assumes "prefix ''/in/'' (ys @ zs)" and "4 \<le> length ys"
  shows "prefix ''/in/'' ys"
proof -
  from assms(1) have "prefix ''/in/'' ys \<or> (\<exists>us. ''/in/'' = ys @ us \<and> prefix us zs)"
    by (simp only: prefix_append)
  then show ?thesis
  proof
    assume "prefix ''/in/'' ys" then show ?thesis .
  next
    assume "\<exists>us. ''/in/'' = ys @ us \<and> prefix us zs"
    then obtain us where us: "''/in/'' = ys @ us" by blast
    then have "length (''/in/'') = length ys + length us" by (metis length_append)
    moreover have "length ''/in/'' = (4::nat)" by simp
    ultimately have "length us = 0" using assms(2) by linarith
    then have "us = []" by simp
    with us show ?thesis by simp
  qed
qed

lemma match_in_first:
  assumes "seg \<noteq> []" "\<forall>c\<in>set seg. seg_char c"
    and "rest = [] \<or> \<not> seg_char (hd rest)"
    and "\<not> sublist ''/in/'' (pre @ ''/in'')"
  shows "match_in (pre @ ''/in/'' @ seg @ rest) = Some seg"
  using assms(4)
proof (induction pre)
  case Nil
  have "takeWhile seg_char (seg @ rest) = seg"
    using assms(2,3) by (cases rest) (auto simp: takeWhile_append)
  with assms(1) show ?case by simp
next
  case (Cons c pre)
  have n1: "\<not> prefix ''/in/'' (c # pre @ ''/in'')"
    using Cons.prems by (auto simp: sublist_Cons_right)
  have "\<not> prefix ''/in/'' ((c # pre @ ''/in'') @ (''/'' @ seg @ rest))"
    using n1 prefix_in_cut [of "c # pre @ ''/in''" "''/'' @ seg @ rest"] by auto
  then have np: "\<not> prefix ''/in/'' (c # pre @ ''/in/'' @ seg @ rest)" by simp
  have "\<not> sublist ''/in/'' (pre @ ''/in'')"
    using Cons.prems by (auto simp: sublist_Cons_right)
  then have ih: "match_in (pre @ ''/in/'' @ seg @ rest) = Some seg" by (rule Cons.IH)
  have "match_in (c # (pre @ ''/in/'' @ seg @ rest)) = match_in (pre @ ''/in/'' @ seg @ rest)"
    using np by (simp only: match_in.simps simp_thms if_False)
  with ih show ?case by (simp only: append_Cons)
qed

lemma match_in_None:
  assumes "\<forall>p c s. url = p @ ''/in/'' @ c # s \<longrightarrow> \<not> seg_char c"
  shows "match_in url = None"
  using assms
proof (induction url)
  case Nil
  then show ?case by simp
next
  case (Cons a url)
  have ih: "match_in url = None"
  proof (rule Cons.IH, intro allI impI)
    fix p c s assume "url = p @ ''/in/'' @ c # s"
    then have "a # url = (a # p) @ ''/in/'' @ c # s" by simp
    with Cons.prems show "\<not> seg_char c" by blast
  qed
  have "\<not> (prefix ''/in/'' (a # url) \<and> takeWhile seg_char (drop 4 (a # url)) \<noteq> [])"
  proof
    assume h: "prefix ''/in/'' (a # url) \<and> takeWhile seg_char (drop 4 (a # url)) \<noteq> []"
    then obtain r where r: "a # url = ''/in/'' @ r" by (auto simp: prefix_def)
    then have d: "drop 4 (a # url) = r" by simp
    with h have "takeWhile seg_char r \<noteq> []" by simp
    then obtain c s where cs: "r = c # s" "seg_char c"
      by (cases r) (auto split: if_splits)
    from r cs(1) have "a # url = [] @ ''/in/'' @ c # s" by simp
    with Cons.prems have "\<not> seg_char c" by blast
    with cs(2) show False by simp
  qed
  then have "match_in (a # url) = match_in url"
    by (simp only: match_in.simps simp_thms if_False)
  with ih show ?case by simp
qed

lemma strip_trailing_slash_seg:
  "\<forall>c\<in>set seg. seg_char c \<Longrightarrow> strip_trailing_slash seg = seg"
  by (cases seg rule: rev_cases) (auto simp: strip_trailing_slash_def seg_char_def)

text \<open>
  Claim C6.  Take a URL \<open>pre @ ''/in/'' @ seg @ rest\<close> in which \<open>seg\<close> is a non-empty
  path segment (no slash, no question mark), what follows the segment is nothing, a
  slash (the trailing slash) or the query, and \<^verbatim>\<open>/in/\<close> does not occur earlier in the
  URL.  Then \<open>extractProfileId\<close> returns exactly \<open>seg\<close>: the prefix up to and including
  \<^verbatim>\<open>/in/\<close> and the trailing slash are stripped.  Being a HOL function, the extraction
  is deterministic and free of effects.
\<close>

theorem extractProfileId_canonical:
  assumes "seg \<noteq> []"
    and "\<forall>c\<in>set seg. c \<noteq> CHR ''/'' \<and> c \<noteq> CHR ''?''"
    and "rest = [] \<or> hd rest = CHR ''/'' \<or> hd rest = CHR ''?''"
    and "\<not> sublist ''/in/'' (pre @ ''/in'')"
  shows "extractProfileId (pre @ ''/in/'' @ seg @ rest) = Some seg"
proof -
  have s: "\<forall>c\<in>set seg. seg_char c" using assms(2) by (simp add: seg_char_def)
  have r: "rest = [] \<or> \<not> seg_char (hd rest)" using assms(3) by (auto simp: seg_char_def)
  have "match_in (pre @ ''/in/'' @ seg @ rest) = Some seg"
    using assms(1) s r assms(4) by (rule match_in_first)
  then show ?thesis
    using assms(1) s by (simp add: extractProfileId_def strip_trailing_slash_seg)
qed

theorem extractProfileId_canonical_witness:
  "extractProfileId ''https://service.example/in/jane-smith/'' = Some ''jane-smith''
   \<and> extractProfileId ''https://service.example/in/john-doe-123456'' = Some ''john-doe-123456''"
proof -
  have n: "\<not> sublist ''/in/'' (''https://service.example'' @ ''/in'')"
    by (simp add: sublist_Cons_right)
  have a: "extractProfileId (''https://service.example'' @ ''/in/'' @ ''jane-smith'' @ ''/'')
             = Some ''jane-smith''"
    using n by (intro extractProfileId_canonical) simp_all
  have b: "extractProfileId (''https://service.example'' @ ''/in/'' @ ''john-doe-123456'' @ [])
             = Some ''john-doe-123456''"
    using n by (intro extractProfileId_canonical) simp_all
  from a b show ?thesis by simp
qed

text \<open>
  Claim C7.  A URL is malformed when the pattern matches nowhere: wherever \<^verbatim>\<open>/in/\<close>
  occurs in it, the next character is a slash or a question mark (or there is none).
  On every such string \<open>extractProfileId\<close> returns \<open>None\<close>, the model of
  \<^verbatim>\<open>null\<close>; the function is total, so it returns on every string.
\<close>

theorem extractProfileId_malformed:
  assumes "\<forall>p c s. url = p @ ''/in/'' @ c # s \<longrightarrow> c = CHR ''/'' \<or> c = CHR ''?''"
  shows "extractProfileId url = None"
proof -
  have "\<forall>p c s. url = p @ ''/in/'' @ c # s \<longrightarrow> \<not> seg_char c"
    using assms by (simp add: seg_char_def)
  then have "match_in url = None" by (rule match_in_None)
  then show ?thesis by (simp add: extractProfileId_def)
qed

theorem extractProfileId_malformed_witness:
  "extractProfileId ''https://service.example/company/acme'' = None"
proof -
  have n: "\<not> sublist ''/in/'' ''https://service.example/company/acme''"
    by (simp add: sublist_Cons_right)
  have a: "\<forall>p c s. ''https://service.example/company/acme'' = p @ ''/in/'' @ c # s
             \<longrightarrow> c = CHR ''/'' \<or> c = CHR ''?''"
  proof (intro allI impI)
    fix p c s assume "''https://service.example/company/acme'' = p @ ''/in/'' @ c # s"
    then have "sublist ''/in/'' ''https://service.example/company/acme''"
      unfolding sublist_def by blast
    with n show "c = CHR ''/'' \<or> c = CHR ''?''" by blast
  qed
  from extractProfileId_malformed [OF a] show ?thesis .
qed

section \<open>Reasoning about runs\<close>

subsection \<open>Computations that return\<close>

lemma nothrowI: "(\<And>w. \<exists>x w'. m w = (Inr x, w')) \<Longrightarrow> nothrow m"
  by (simp add: nothrow_def)

lemma nothrowD: "nothrow m \<Longrightarrow> \<exists>x w'. m w = (Inr x, w')"
  by (simp add: nothrow_def)

lemma nothrow_return [run_intros]: "nothrow (io_return x)"
  by (simp add: nothrow_def io_return_def)

lemma nothrow_console [run_intros]: "nothrow (console m)"
  by (simp add: nothrow_def console_def)

lemma nothrow_sleep [run_intros]: "nothrow (sleep env ms)"
  by (simp add: nothrow_def sleep_def)

lemma nothrow_now [run_intros]: "nothrow now"
  by (simp add: nothrow_def now_def)

lemma nothrow_bind [run_intros]:
  assumes "nothrow m" and "\<And>x. nothrow (f x)"
  shows "nothrow (io_bind m f)"
proof (rule nothrowI)
  fix w
  from nothrowD [OF assms(1), of w] obtain x w' where m: "m w = (Inr x, w')" by blast
  from nothrowD [OF assms(2), of x w'] obtain y w'' where "f x w' = (Inr y, w'')" by blast
  with m show "\<exists>y w''. io_bind m f w = (Inr y, w'')" by (simp add: io_bind_def)
qed

lemma nothrow_seq [run_intros]: "nothrow m \<Longrightarrow> nothrow n \<Longrightarrow> nothrow (io_seq m n)"
  by (simp add: io_seq_def nothrow_bind)

lemma nothrow_catch [run_intros]:
  assumes "\<And>e. nothrow (h e)"
  shows "nothrow (io_catch m h)"
proof (rule nothrowI)
  fix w
  obtain r w' where m: "m w = (r, w')" by (cases "m w")
  show "\<exists>x w''. io_catch m h w = (Inr x, w'')"
  proof (cases r)
    case (Inl e)
    with m nothrowD [OF assms, of e w'] show ?thesis by (simp add: io_catch_def)
  next
    case (Inr x)
    with m show ?thesis by (simp add: io_catch_def)
  qed
qed

lemma nothrow_if [run_intros]:
  "(c \<Longrightarrow> nothrow a) \<Longrightarrow> (\<not> c \<Longrightarrow> nothrow b) \<Longrightarrow> nothrow (if c then a else b)"
  by simp

subsection \<open>What a computation adds to the trace\<close>

lemma appendsI:
  "(\<And>w. \<exists>es. trace (snd (m w)) = trace w @ es \<and> list_all P es) \<Longrightarrow> appends P m"
  by (simp add: appends_def)

lemma appendsD: "appends P m \<Longrightarrow> \<exists>es. trace (snd (m w)) = trace w @ es \<and> list_all P es"
  by (simp add: appends_def)

lemma appends_return [run_intros]: "appends P (io_return x)"
  by (simp add: appends_def io_return_def)

lemma appends_throw [run_intros]: "appends P (io_throw e)"
  by (simp add: appends_def io_throw_def)

lemma appends_now [run_intros]: "appends P now"
  by (simp add: appends_def now_def)

lemma appends_sleep [run_intros]: "appends P (sleep env ms)"
  by (simp add: appends_def sleep_def)

lemma appends_console [run_intros]: "P (Console m) \<Longrightarrow> appends P (console m)"
  by (simp add: appends_def console_def emit_def)

lemma appends_driver_call [run_intros]: "P (Call c) \<Longrightarrow> appends P (driver_call c f)"
  by (simp add: appends_def driver_call_def emit_def split: prod.splits)

lemma appends_bind [run_intros]:
  assumes "appends P m" and "\<And>x. appends P (f x)"
  shows "appends P (io_bind m f)"
proof (rule appendsI)
  fix w
  obtain r w' where m: "m w = (r, w')" by (cases "m w")
  from appendsD [OF assms(1), of w] m obtain es
    where es: "trace w' = trace w @ es" "list_all P es" by auto
  show "\<exists>es. trace (snd (io_bind m f w)) = trace w @ es \<and> list_all P es"
  proof (cases r)
    case (Inl e)
    with m es show ?thesis by (simp add: io_bind_def)
  next
    case (Inr x)
    from appendsD [OF assms(2), of x w'] obtain fs
      where "trace (snd (f x w')) = trace w' @ fs" "list_all P fs" by blast
    with m es Inr have "trace (snd (io_bind m f w)) = trace w @ (es @ fs) \<and> list_all P (es @ fs)"
      by (simp add: io_bind_def)
    then show ?thesis by blast
  qed
qed

lemma appends_seq [run_intros]: "appends P m \<Longrightarrow> appends P n \<Longrightarrow> appends P (io_seq m n)"
  by (simp add: io_seq_def appends_bind)

lemma appends_catch [run_intros]:
  assumes "appends P m" and "\<And>e. appends P (h e)"
  shows "appends P (io_catch m h)"
proof (rule appendsI)
  fix w
  obtain r w' where m: "m w = (r, w')" by (cases "m w")
  from appendsD [OF assms(1), of w] m obtain es
    where es: "trace w' = trace w @ es" "list_all P es" by auto
  show "\<exists>es. trace (snd (io_catch m h w)) = trace w @ es \<and> list_all P es"
  proof (cases r)
    case (Inr x)
    with m es show ?thesis by (simp add: io_catch_def)
  next
    case (Inl e)
    from appendsD [OF assms(2), of e w'] obtain fs
      where "trace (snd (h e w')) = trace w' @ fs" "list_all P fs" by blast
    with m es Inl have "trace (snd (io_catch m h w)) = trace w @ (es @ fs) \<and> list_all P (es @ fs)"
      by (simp add: io_catch_def)
    then show ?thesis by blast
  qed
qed

lemma appends_if [run_intros]:
  "(c \<Longrightarrow> appends P a) \<Longrightarrow> (\<not> c \<Longrightarrow> appends P b) \<Longrightarrow> appends P (if c then a else b)"
  by simp

lemma appends_fs_request [run_intros]:
  assumes "P (Fs op)" and "appends P m"
  shows "appends P (fs_request env op m)"
proof (rule appendsI)
  fix w
  from appendsD [OF assms(2), of "emit (Fs op) w"] obtain es
    where "trace (snd (m (emit (Fs op) w))) = trace (emit (Fs op) w) @ es" "list_all P es"
    by blast
  with assms(1) have "trace (snd (fs_request env op m w)) = trace w @ (if fsFault env op (clock w) then [Fs op] else Fs op # es)
      \<and> list_all P (if fsFault env op (clock w) then [Fs op] else Fs op # es)"
    by (simp add: fs_request_def emit_def)
  then show "\<exists>es. trace (snd (fs_request env op m w)) = trace w @ es \<and> list_all P es" by blast
qed

lemma appends_pure:
  assumes "\<And>w. \<exists>r. m w = (r, w)"
  shows "appends P m"
proof (rule appendsI)
  fix w
  from assms [of w] obtain r where "m w = (r, w)" by blast
  then show "\<exists>es. trace (snd (m w)) = trace w @ es \<and> list_all P es" by simp
qed

lemma appends_fs_readFile [run_intros]: "P (Fs (ReadFile p)) \<Longrightarrow> appends P (fs_readFile env p)"
  unfolding fs_readFile_def
  by (erule appends_fs_request) (rule appends_pure, simp split: option.splits)

lemma appends_fs_writeFile [run_intros]:
  "P (Fs (WriteFile p)) \<Longrightarrow> appends P (fs_writeFile env p s)"
  unfolding fs_writeFile_def
  by (erule appends_fs_request) (simp add: appends_def)

lemma appends_fs_mkdir [run_intros]: "P (Fs (Mkdir d)) \<Longrightarrow> appends P (fs_mkdir env d)"
  unfolding fs_mkdir_def
  by (erule appends_fs_request) (simp add: appends_def split: option.splits)

lemma appends_fs_readdir [run_intros]: "P (Fs (Readdir d)) \<Longrightarrow> appends P (fs_readdir env d)"
  unfolding fs_readdir_def
  by (erule appends_fs_request) (rule appends_pure, simp split: option.splits)

lemma appends_fs_stat [run_intros]: "P (Fs (Stat d f)) \<Longrightarrow> appends P (fs_stat env d f)"
  unfolding fs_stat_def
  by (erule appends_fs_request) (rule appends_pure, simp split: option.splits)

lemma appends_fs_access [run_intros]: "P (Fs (Access d f)) \<Longrightarrow> appends P (fs_access env d f)"
  unfolding fs_access_def
  by (erule appends_fs_request) (rule appends_pure, simp split: option.splits)

lemma appends_fs_rename [run_intros]:
  "P (Fs (Rename d src dst)) \<Longrightarrow> appends P (fs_rename env d src dst)"
  unfolding fs_rename_def
  by (erule appends_fs_request) (simp add: appends_def split: option.splits)

lemma appends_statAll [run_intros]:
  "(\<And>op. P (Fs op)) \<Longrightarrow> appends P (statAll env d fs)"
  by (induction fs) (auto intro!: run_intros)

lemma appends_scanDownloads [run_intros]:
  "(\<And>op. P (Fs op)) \<Longrightarrow> appends P (scanDownloads env d)"
  unfolding scanDownloads_def Let_def
  by (auto intro!: run_intros split: list.splits)

lemma waitLoop_trace:
  assumes "\<And>op. P (Fs op)"
  shows "\<exists>es. trace (snd (waitLoop env d t s w)) = trace w @ es \<and> list_all P es"
proof (induction env d t s w rule: waitLoop.induct)
  case (1 env d t s w)
  show ?case
  proof (cases "clock w - s < t")
    case False
    then show ?thesis by (simp add: waitLoop.simps)
  next
    case True
    let ?poll = "io_catch (scanDownloads env d) (\<lambda>e. io_return None)"
    obtain r w' where p: "?poll w = (r, w')" by (cases "?poll w")
    have "appends P ?poll" using assms by (intro run_intros) 
    from appendsD [OF this, of w] p obtain es
      where es: "trace w' = trace w @ es" "list_all P es" by auto
    show ?thesis
    proof (cases "\<exists>f. r = Inr (Some f)")
      case True
      with p \<open>clock w - s < t\<close> es show ?thesis by (auto simp: waitLoop.simps)
    next
      case False
      then have eq: "waitLoop env d t s w = waitLoop env d t s (snd (sleep env 500 w'))"
        using p \<open>clock w - s < t\<close>
        by (subst waitLoop.simps) (auto split: sum.splits option.splits)
      have "\<exists>fs. trace (snd (waitLoop env d t s (snd (sleep env 500 w'))))
                   = trace (snd (sleep env 500 w')) @ fs \<and> list_all P fs"
      proof (cases r)
        case (Inl a)
        from "1.IH"(1) [OF \<open>clock w - s < t\<close> p [symmetric] Inl] show ?thesis .
      next
        case (Inr b)
        with False have "b = None" by (cases b) auto
        from "1.IH"(2) [OF \<open>clock w - s < t\<close> p [symmetric] Inr this] show ?thesis .
      qed
      then obtain fs where
        "trace (snd (waitLoop env d t s (snd (sleep env 500 w')))) = trace w' @ fs" "list_all P fs"
        by (auto simp: sleep_def)
      with es eq have "trace (snd (waitLoop env d t s w)) = trace w @ (es @ fs) \<and> list_all P (es @ fs)"
        by simp
      then show ?thesis by blast
    qed
  qed
qed

lemma appends_waitForDownload [run_intros]:
  "(\<And>op. P (Fs op)) \<Longrightarrow> appends P (waitForDownload env d t)"
  unfolding waitForDownload_def [abs_def]
  by (rule appendsI) (rule waitLoop_trace)

subsection \<open>The resolver and the export paths add no target and no navigation\<close>

lemma quiet_Fs [simp]: "quiet (Fs op)"
  by (simp add: quiet_def)

lemma quiet_attempted: "list_all quiet es \<Longrightarrow> attempted es = [] \<and> navigated es = []"
  by (induction es) (simp_all add: attempted_def navigated_def quiet_def)

lemma appends_renameDownloadedPdf [run_intros]:
  "appends quiet (renameDownloadedPdf env profileId d)"
  unfolding renameDownloadedPdf_def Let_def
  by (auto intro!: run_intros split: list.splits simp: quiet_def)

lemma appends_downloadReported [run_intros]: "appends quiet (downloadReported env profileId)"
  unfolding downloadReported_def
  by (auto intro!: run_intros simp: quiet_def)

lemma appends_primaryPath [run_intros]: "appends quiet (primaryPath env profileId el)"
  unfolding primaryPath_def
  by (auto intro!: run_intros simp: quiet_def)

lemma appends_alternativePath [run_intros]: "appends quiet (alternativePath env profileId)"
  unfolding alternativePath_def
  by (auto intro!: run_intros simp: quiet_def)

subsection \<open>One round of the loop\<close>

lemma processProfile_nothrow: "nothrow (processProfile env URLs i)"
  unfolding processProfile_def Let_def
  by (intro run_intros)

lemma guarded_visit:
  assumes "appends quiet rest" and "\<And>e. appends quiet (h e)"
  shows "\<exists>es. trace (snd (io_catch (io_seq (driver_call (Get url) f) rest) h w))
                = trace w @ Call (Get url) # es \<and> list_all quiet es"
proof -
  obtain r b where f: "f (browser w) = (r, b)" by (cases "f (browser w)")
  let ?w1 = "emit (Call (Get url)) (w\<lparr>browser := b\<rparr>)"
  have t1: "trace ?w1 = trace w @ [Call (Get url)]" by (simp add: emit_def)
  show ?thesis
  proof (cases r)
    case (Inl e)
    then have "io_catch (io_seq (driver_call (Get url) f) rest) h w = h e ?w1"
      using f by (simp add: io_catch_def io_seq_def io_bind_def driver_call_def)
    moreover from appendsD [OF assms(2), of e ?w1] obtain es
      where "trace (snd (h e ?w1)) = trace ?w1 @ es" "list_all quiet es" by blast
    ultimately show ?thesis using t1 by simp
  next
    case (Inr u)
    then have "io_catch (io_seq (driver_call (Get url) f) rest) h w = io_catch rest h ?w1"
      using f by (simp add: io_catch_def io_seq_def io_bind_def driver_call_def)
    moreover have "appends quiet (io_catch rest h)"
      using assms by (intro run_intros)
    from appendsD [OF this, of ?w1] obtain es
      where "trace (snd (io_catch rest h ?w1)) = trace ?w1 @ es" "list_all quiet es" by blast
    ultimately show ?thesis using t1 by simp
  qed
qed

lemma processProfile_trace:
  "\<exists>es. trace (snd (processProfile env URLs i w)) = trace w @ es
        \<and> attempted es = (if trim (URLs ! i) = [] then [] else [trim (URLs ! i)])
        \<and> navigated es = (if trim (URLs ! i) \<noteq> [] \<and> truthy (extractProfileId (trim (URLs ! i)))
                          then [trim (URLs ! i)] else [])"
proof -
  let ?url = "trim (URLs ! i)"
  show ?thesis
  proof (cases "?url = []")
    case True
    then show ?thesis
      by (simp add: processProfile_def io_return_def attempted_def navigated_def)
  next
    case False
    show ?thesis
    proof (cases "truthy (extractProfileId ?url)")
      case n: False
      with False show ?thesis
        by (simp add: processProfile_def console_def emit_def attempted_def navigated_def)
    next
      case y: True
      let ?rest = "io_seq (sleep env 3000)
            (io_bind (driver_call (FindElements overflowAction)
                        (d_findElements env overflowAction)) (\<lambda>overflowActions.
               case second overflowActions of
                 None \<Rightarrow> console NoSecondOverflow
               | Some secondOverflowAction \<Rightarrow>
                   io_catch
                     (primaryPath env (the (extractProfileId ?url)) secondOverflowAction)
                     (\<lambda>e. io_seq (console (ErrorPdfButton (message e)))
                            (io_catch
                               (alternativePath env (the (extractProfileId ?url)))
                               (\<lambda>e2. console (AlternativeFailed (message e2)))))))"
      let ?h = "\<lambda>e. console (ErrorProcessingProfile (message e)) :: (unit, 'a) io"
      let ?w2 = "emit (Console (UrlLine ?url))
                   (emit (Console (Processing (i + 1) (length URLs) (the (extractProfileId ?url)))) w)"
      have r: "appends quiet ?rest"
        by (auto intro!: run_intros split: option.splits simp: quiet_def)
      have h: "\<And>e. appends quiet (?h e)"
        by (auto intro!: run_intros simp: quiet_def)
      have eq: "processProfile env URLs i w
                  = io_catch (io_seq (driver_call (Get ?url) (d_get env ?url)) ?rest) ?h ?w2"
        using False y
        by (simp add: processProfile_def Let_def io_seq_def io_bind_def console_def)
      have "\<exists>es. trace (snd (io_catch (io_seq (driver_call (Get ?url) (d_get env ?url)) ?rest) ?h ?w2))
                 = trace ?w2 @ Call (Get ?url) # es \<and> list_all quiet es"
        using r h by (rule guarded_visit)
      then obtain es
        where es: "trace (snd (io_catch (io_seq (driver_call (Get ?url) (d_get env ?url)) ?rest) ?h ?w2))
                 = trace ?w2 @ Call (Get ?url) # es" "list_all quiet es" by blast
      let ?es = "[Console (Processing (i + 1) (length URLs) (the (extractProfileId ?url))),
                  Console (UrlLine ?url), Call (Get ?url)] @ es"
      have "trace (snd (processProfile env URLs i w)) = trace w @ ?es"
        using eq es(1) by (simp add: emit_def)
      moreover have "attempted ?es = [?url]" "navigated ?es = [?url]"
        using quiet_attempted [OF es(2)] by (simp_all add: attempted_def navigated_def)
      ultimately show ?thesis using False y by (intro exI [of _ ?es]) simp
    qed
  qed
qed

lemma profilesLoop_run:
  "\<exists>w' es. profilesLoop env URLs i w = (Inr (), w') \<and> trace w' = trace w @ es
      \<and> attempted es = filter (\<lambda>u. u \<noteq> []) (map trim (drop i URLs))
      \<and> navigated es = filter (\<lambda>u. truthy (extractProfileId u))
                          (filter (\<lambda>u. u \<noteq> []) (map trim (drop i URLs)))"
proof (induction env URLs i w rule: profilesLoop.induct)
  case (1 env URLs i w)
  show ?case
  proof (cases "i < length URLs")
    case False
    then show ?thesis
      by (simp add: profilesLoop.simps attempted_def navigated_def)
  next
    case True
    from nothrowD [OF processProfile_nothrow, of env URLs i w] obtain x w1
      where b: "processProfile env URLs i w = (Inr x, w1)" by blast
    from processProfile_trace [of env URLs i w] b obtain es
      where es: "trace w1 = trace w @ es"
        "attempted es = (if trim (URLs ! i) = [] then [] else [trim (URLs ! i)])"
        "navigated es = (if trim (URLs ! i) \<noteq> [] \<and> truthy (extractProfileId (trim (URLs ! i)))
                          then [trim (URLs ! i)] else [])"
      by auto
    from "1.IH" [OF True b [symmetric] refl] obtain w' fs
      where ih: "profilesLoop env URLs (Suc i) w1 = (Inr (), w')" "trace w' = trace w1 @ fs"
        "attempted fs = filter (\<lambda>u. u \<noteq> []) (map trim (drop (Suc i) URLs))"
        "navigated fs = filter (\<lambda>u. truthy (extractProfileId u))
                          (filter (\<lambda>u. u \<noteq> []) (map trim (drop (Suc i) URLs)))"
      by blast
    have d: "drop i URLs = URLs ! i # drop (Suc i) URLs"
      using True by (simp add: Cons_nth_drop_Suc)
    have l: "profilesLoop env URLs i w = (Inr (), w')"
      using True b ih(1) by (subst profilesLoop.simps) simp
    have t: "trace w' = trace w @ (es @ fs)" using es(1) ih(2) by simp
    have a: "attempted (es @ fs) = filter (\<lambda>u. u \<noteq> []) (map trim (drop i URLs))"
      using es(2) ih(3) d by (simp add: attempted_def)
    have n: "navigated (es @ fs) = filter (\<lambda>u. truthy (extractProfileId u))
                          (filter (\<lambda>u. u \<noteq> []) (map trim (drop i URLs)))"
      using es(3) ih(4) d by (simp add: navigated_def)
    from l t a n show ?thesis by blast
  qed
qed

subsection \<open>The whole batch\<close>

lemma getProfileURLs_nothrow: "nothrow (getProfileURLs env)"
  unfolding getProfileURLs_def by (intro run_intros)

lemma profilesLoop_nothrow: "nothrow (profilesLoop env URLs i)"
proof (rule nothrowI)
  fix w
  from profilesLoop_run [of env URLs i w]
  show "\<exists>x w'. profilesLoop env URLs i w = (Inr x, w')" by blast
qed

lemma proccessProfiles_nothrow: "nothrow (proccessProfiles env)"
  unfolding proccessProfiles_def
  by (intro run_intros getProfileURLs_nothrow profilesLoop_nothrow)

lemma appends_any: "appends P m \<Longrightarrow> appends (\<lambda>_. True) m"
  by (auto simp: appends_def list_all_iff)

lemma appends_profilesLoop: "appends (\<lambda>_. True) (profilesLoop env URLs i)"
proof (rule appendsI)
  fix w
  from profilesLoop_run [of env URLs i w]
  show "\<exists>es. trace (snd (profilesLoop env URLs i w)) = trace w @ es \<and> list_all (\<lambda>_. True) es"
    by (auto simp: list_all_iff)
qed

lemma appends_getProfileURLs: "appends (\<lambda>_. True) (getProfileURLs env)"
  unfolding getProfileURLs_def Let_def by (intro run_intros) simp_all

lemma appends_proccessProfiles: "appends (\<lambda>_. True) (proccessProfiles env)"
  unfolding proccessProfiles_def
  by (intro run_intros appends_getProfileURLs appends_profilesLoop)

subsection \<open>Logging in\<close>

lemma loginWithSavedCookies_nothrow: "nothrow (loginWithSavedCookies env)"
  unfolding loginWithSavedCookies_def by (intro run_intros)

lemma appends_loginToLinkedIn: "appends (\<lambda>_. True) (loginToLinkedIn env)"
  unfolding loginToLinkedIn_def by (intro run_intros) simp_all

lemma appends_addCookies: "appends (\<lambda>_. True) (addCookies env cs)"
  by (induction cs) (auto intro!: run_intros)

lemma appends_loadCookies: "appends (\<lambda>_. True) (loadCookies env)"
  unfolding loadCookies_def
  by (auto intro!: run_intros appends_addCookies split: option.splits)

lemma appends_loginWithSavedCookies: "appends (\<lambda>_. True) (loginWithSavedCookies env)"
  unfolding loginWithSavedCookies_def
  by (auto intro!: run_intros appends_loadCookies appends_loginToLinkedIn split: option.splits)

subsection \<open>How a run ends\<close>

lemma finishes_driver_call: "finishes_with (Call c) (driver_call c f)"
  by (simp add: finishes_with_def driver_call_def emit_def split: prod.splits)

lemma finishes_bind:
  assumes "nothrow m" and "\<And>x. finishes_with e (f x)"
  shows "finishes_with e (io_bind m f)"
  unfolding finishes_with_def
proof
  fix w
  from nothrowD [OF assms(1), of w] obtain x w' where "m w = (Inr x, w')" by blast
  then have "io_bind m f w = f x w'" by (simp add: io_bind_def)
  with assms(2) [of x] show "trace (snd (io_bind m f w)) \<noteq> [] \<and> last (trace (snd (io_bind m f w))) = e"
    by (simp add: finishes_with_def)
qed

lemma finishes_seq: "nothrow m \<Longrightarrow> finishes_with e n \<Longrightarrow> finishes_with e (io_seq m n)"
  by (simp add: io_seq_def finishes_bind)

lemma finishes_if:
  "(c \<Longrightarrow> finishes_with e a) \<Longrightarrow> (\<not> c \<Longrightarrow> finishes_with e b)
   \<Longrightarrow> finishes_with e (if c then a else b)"
  by simp

lemma withDriver_finishes: "finishes_with (Call Quit) (withDriver env)"
  unfolding withDriver_def
  by (intro finishes_bind finishes_if finishes_seq finishes_driver_call
        loginWithSavedCookies_nothrow proccessProfiles_nothrow run_intros)

lemma appends_withDriver: "appends (\<lambda>_. True) (withDriver env)"
  unfolding withDriver_def
  by (intro run_intros appends_loginWithSavedCookies appends_proccessProfiles) simp_all

lemma main_start:
  "\<exists>m w1. trace w1 = trace w @ [Fs (Mkdir DOWNLOAD_FOLDER), Console m, Call Build]
     \<and> browser w1 = snd (d_build env (browser w))
     \<and> textFiles w1 = textFiles w
     \<and> main env w = (case fst (d_build env (browser w)) of
                        Inr _ \<Rightarrow> withDriver env w1
                      | Inl e \<Rightarrow> (Inr (), emit (Console FailedToCreateDriver)
                                           (emit (Console (ErrorGettingDriver (message e))) w1)))"
proof -
  let ?A = "io_catch
               (io_seq (fs_mkdir env DOWNLOAD_FOLDER) (console (DownloadFolderIs DOWNLOAD_FOLDER)))
               (\<lambda>e. console FolderAlreadyExists) :: (unit, 'a) io"
  have "\<exists>m w0. ?A w = (Inr (), w0) \<and> trace w0 = trace w @ [Fs (Mkdir DOWNLOAD_FOLDER), Console m]
          \<and> browser w0 = browser w \<and> textFiles w0 = textFiles w"
    by (auto simp: io_catch_def io_seq_def io_bind_def fs_mkdir_def fs_request_def console_def emit_def
             split: option.splits)
  then obtain m w0 where a: "?A w = (Inr (), w0)"
      "trace w0 = trace w @ [Fs (Mkdir DOWNLOAD_FOLDER), Console m]" "browser w0 = browser w"
      "textFiles w0 = textFiles w"
    by blast
  obtain r b where d: "d_build env (browser w) = (r, b)" by (cases "d_build env (browser w)")
  let ?w1 = "emit (Call Build) (w0\<lparr>browser := b\<rparr>)"
  have t: "trace ?w1 = trace w @ [Fs (Mkdir DOWNLOAD_FOLDER), Console m, Call Build]"
    using a(2) by (simp add: emit_def)
  have b: "browser ?w1 = snd (d_build env (browser w))" using d by (simp add: emit_def)
  have f: "textFiles ?w1 = textFiles w" using a(4) by (simp add: emit_def)
  have "main env w = (case r of
                        Inr _ \<Rightarrow> withDriver env ?w1
                      | Inl e \<Rightarrow> (Inr (), emit (Console FailedToCreateDriver)
                                           (emit (Console (ErrorGettingDriver (message e))) ?w1)))"
    using a(1,3) d
    by (cases r)
       (simp_all add: main_def withDriver_def getDriver_def io_seq_def io_bind_def io_catch_def
          driver_call_def io_return_def console_def)
  with t b f d show ?thesis by (intro exI [of _ m] exI [of _ ?w1]) simp
qed

lemma main_opens_browser:
  "\<exists>m es. trace (snd (main env w))
            = trace w @ [Fs (Mkdir DOWNLOAD_FOLDER), Console m, Call Build] @ es"
proof -
  from main_start [of w env] obtain m w1
    where t: "trace w1 = trace w @ [Fs (Mkdir DOWNLOAD_FOLDER), Console m, Call Build]"
      and e: "main env w = (case fst (d_build env (browser w)) of
                        Inr _ \<Rightarrow> withDriver env w1
                      | Inl e \<Rightarrow> (Inr (), emit (Console FailedToCreateDriver)
                                           (emit (Console (ErrorGettingDriver (message e))) w1)))"
    by blast
  show ?thesis
  proof (cases "fst (d_build env (browser w))")
    case (Inl x)
    with e t have "trace (snd (main env w))
        = trace w @ [Fs (Mkdir DOWNLOAD_FOLDER), Console m, Call Build]
          @ [Console (ErrorGettingDriver (message x)), Console FailedToCreateDriver]"
      by (simp add: emit_def)
    then show ?thesis by blast
  next
    case (Inr u)
    from appendsD [OF appends_withDriver, of env w1] obtain es
      where "trace (snd (withDriver env w1)) = trace w1 @ es" by blast
    with Inr e t show ?thesis by simp
  qed
qed

lemma loginWithSavedCookies_unreadable:
  assumes "fsFault env (ReadFile COOKIES_FILE) (clock w) \<or> textFiles w COOKIES_FILE = None"
  shows "\<exists>msg. loginWithSavedCookies env w
           = (Inr None, w\<lparr>trace := trace w @ [Fs (ReadFile COOKIES_FILE),
                                               Console (ErrorLoadingCookies msg),
                                               Console (ErrorMsg msg)]\<rparr>)"
proof -
  have "\<exists>msg. fs_readFile env COOKIES_FILE w
          = (Inl (Error msg), w\<lparr>trace := trace w @ [Fs (ReadFile COOKIES_FILE)]\<rparr>)"
    using assms by (auto simp: fs_readFile_def fs_request_def emit_def)
  then obtain msg where "fs_readFile env COOKIES_FILE w
          = (Inl (Error msg), w\<lparr>trace := trace w @ [Fs (ReadFile COOKIES_FILE)]\<rparr>)" by blast
  then have "loginWithSavedCookies env w
           = (Inr None, w\<lparr>trace := trace w @ [Fs (ReadFile COOKIES_FILE),
                                               Console (ErrorLoadingCookies msg),
                                               Console (ErrorMsg msg)]\<rparr>)"
    by (simp add: loginWithSavedCookies_def loadCookies_def io_catch_def io_bind_def io_seq_def
          io_throw_def io_return_def console_def emit_def)
  then show ?thesis by blast
qed

text \<open>
  Claim C1 (the code at the failing input).  Let the cookie file be absent.  Then
  \<^verbatim>\<open>loginWithSavedCookies\<close> reads the file, prints the two error lines and returns
  \<^verbatim>\<open>undefined\<close>; it issues no driver command, so the login page is never opened.  A
  run of \<^verbatim>\<open>main\<close> that got its driver then prints \<^verbatim>\<open>Login failed\<close> and quits: its
  whole trace is the one below, without any step of the credential login.
\<close>

theorem absent_cookies_abort_the_run:
  "\<exists>m msg. trace (snd (main env (w\<lparr>textFiles := (textFiles w)(COOKIES_FILE := None)\<rparr>)))
     = trace w @ [Fs (Mkdir DOWNLOAD_FOLDER), Console m, Call Build]
       @ (case fst (d_build env (browser w)) of
            Inr _ \<Rightarrow> [Fs (ReadFile COOKIES_FILE), Console (ErrorLoadingCookies msg),
                      Console (ErrorMsg msg), Console LoginFailed, Call Quit]
          | Inl e \<Rightarrow> [Console (ErrorGettingDriver (message e)), Console FailedToCreateDriver])"
proof -
  let ?w = "w\<lparr>textFiles := (textFiles w)(COOKIES_FILE := None)\<rparr>"
  from main_start [of ?w env] obtain m w1
    where t: "trace w1 = trace w @ [Fs (Mkdir DOWNLOAD_FOLDER), Console m, Call Build]"
      and f: "textFiles w1 = (textFiles w)(COOKIES_FILE := None)"
      and e: "main env ?w = (case fst (d_build env (browser w)) of
                        Inr _ \<Rightarrow> withDriver env w1
                      | Inl e \<Rightarrow> (Inr (), emit (Console FailedToCreateDriver)
                                           (emit (Console (ErrorGettingDriver (message e))) w1)))"
    by auto
  from f have "textFiles w1 COOKIES_FILE = None" by simp
  then have "fsFault env (ReadFile COOKIES_FILE) (clock w1) \<or> textFiles w1 COOKIES_FILE = None"
    by simp
  from loginWithSavedCookies_unreadable [OF this] obtain msg
    where l: "loginWithSavedCookies env w1
           = (Inr None, w1\<lparr>trace := trace w1 @ [Fs (ReadFile COOKIES_FILE),
                                               Console (ErrorLoadingCookies msg),
                                               Console (ErrorMsg msg)]\<rparr>)" by blast
  have wd: "trace (snd (withDriver env w1))
              = trace w1 @ [Fs (ReadFile COOKIES_FILE), Console (ErrorLoadingCookies msg),
                            Console (ErrorMsg msg), Console LoginFailed, Call Quit]"
    using l
    by (simp add: withDriver_def io_bind_def io_seq_def console_def sleep_def driver_call_def
          emit_def split: prod.splits)
  have "trace (snd (main env ?w))
     = trace w @ [Fs (Mkdir DOWNLOAD_FOLDER), Console m, Call Build]
       @ (case fst (d_build env (browser w)) of
            Inr _ \<Rightarrow> [Fs (ReadFile COOKIES_FILE), Console (ErrorLoadingCookies msg),
                      Console (ErrorMsg msg), Console LoginFailed, Call Quit]
          | Inl e \<Rightarrow> [Console (ErrorGettingDriver (message e)), Console FailedToCreateDriver])"
    using e t wd by (cases "fst (d_build env (browser w))") (simp_all add: emit_def)
  then show ?thesis by blast
qed

text \<open>
  Claim C3 (amended).  The program does not check the credentials before it opens the
  browser session: whatever the two values of the process environment are, absent or
  present, \<^verbatim>\<open>main\<close> first creates the download folder and then asks for the driver.
\<close>

theorem browser_opened_whatever_the_credentials:
  "\<exists>m es. trace (snd (main (env\<lparr>LINKEDIN_EMAIL := email, LINKEDIN_PASSWORD := password\<rparr>) w))
            = trace w @ [Fs (Mkdir DOWNLOAD_FOLDER), Console m, Call Build] @ es"
  by (rule main_opens_browser)

text \<open>
  Claim C3 as stated fails: with both credentials absent the run still builds the
  driver.
\<close>

theorem no_credentials_counterexample:
  "LINKEDIN_EMAIL quietEnv = None \<and> LINKEDIN_PASSWORD quietEnv = None
   \<and> Call Build \<in> set (trace (snd (main quietEnv emptyWorld)))"
proof -
  from main_opens_browser [of quietEnv emptyWorld] obtain m es
    where "trace (snd (main quietEnv emptyWorld))
            = trace emptyWorld @ [Fs (Mkdir DOWNLOAD_FOLDER), Console m, Call Build] @ es"
    by blast
  then show ?thesis by (simp add: quietEnv_def)
qed

text \<open>
  Claim C9.  When the driver is built, the last thing a run of \<^verbatim>\<open>main\<close> does is
  \<^verbatim>\<open>driver.quit()\<close>, whether the login succeeds or not and whatever happens to the
  targets.
\<close>

theorem main_quits_browser:
  assumes "fst (d_build env (browser w)) = Inr ()"
  shows "trace (snd (main env w)) \<noteq> [] \<and> last (trace (snd (main env w))) = Call Quit"
proof -
  from main_start [of w env] obtain w1
    where "main env w = (case fst (d_build env (browser w)) of
                        Inr _ \<Rightarrow> withDriver env w1
                      | Inl e \<Rightarrow> (Inr (), emit (Console FailedToCreateDriver)
                                           (emit (Console (ErrorGettingDriver (message e))) w1)))"
    by blast
  with assms have "main env w = withDriver env w1" by simp
  with withDriver_finishes [of env] show ?thesis by (simp add: finishes_with_def)
qed

theorem main_quits_browser_witness:
  "fst (d_build quietEnv (browser emptyWorld)) = Inr ()
   \<and> last (trace (snd (main quietEnv emptyWorld))) = Call Quit"
proof -
  have h: "fst (d_build quietEnv (browser emptyWorld)) = Inr ()"
    by (simp add: quietEnv_def)
  from main_quits_browser [OF h] h show ?thesis by simp
qed

text \<open>
  Claim C2.  For every list of targets and every index \<open>i\<close>, the loop of
  \<^verbatim>\<open>proccessProfiles\<close> started at \<open>i\<close> returns normally, whatever the driver and the
  filesystem do: no exception leaves a round.  The targets it takes up are all the
  non-blank entries from \<open>i\<close> on, in order, and it navigates to each of them whose
  identifier resolves.  \<^verbatim>\<open>proccessProfiles\<close> as a whole returns normally, too.
\<close>

theorem one_bad_target_never_stops_the_batch:
  "(\<exists>w' es. profilesLoop env URLs i w = (Inr (), w') \<and> trace w' = trace w @ es
      \<and> attempted es = filter (\<lambda>u. u \<noteq> []) (map trim (drop i URLs))
      \<and> navigated es = filter (\<lambda>u. truthy (extractProfileId u))
                          (filter (\<lambda>u. u \<noteq> []) (map trim (drop i URLs))))
   \<and> (\<exists>w'. proccessProfiles env w = (Inr (), w'))"
proof
  show "\<exists>w' es. profilesLoop env URLs i w = (Inr (), w') \<and> trace w' = trace w @ es
      \<and> attempted es = filter (\<lambda>u. u \<noteq> []) (map trim (drop i URLs))
      \<and> navigated es = filter (\<lambda>u. truthy (extractProfileId u))
                          (filter (\<lambda>u. u \<noteq> []) (map trim (drop i URLs)))"
    by (rule profilesLoop_run)
  from nothrowD [OF proccessProfiles_nothrow, of env w]
  show "\<exists>w'. proccessProfiles env w = (Inr (), w')" by simp
qed

lemma parseUrls_empty: "parseUrls [] = []"
  by (simp add: parseUrls_def trim_def split_seps.simps)

text \<open>
  Claim C10.  When the target list cannot be read (the read is rejected or the file
  does not exist) or is empty, \<^verbatim>\<open>getProfileURLs\<close> returns the empty list without
  throwing, and \<^verbatim>\<open>proccessProfiles\<close> returns normally having done nothing but that
  read and one console line: no target is taken up and no driver command is issued.
\<close>

theorem unreadable_target_list:
  assumes "fsFault env (ReadFile profileURLsPath) (clock w)
           \<or> textFiles w profileURLsPath = None
           \<or> textFiles w profileURLsPath = Some []"
  shows "\<exists>m. getProfileURLs env w
               = (Inr [], w\<lparr>trace := trace w @ [Fs (ReadFile profileURLsPath), Console m]\<rparr>)
           \<and> proccessProfiles env w
               = (Inr (), w\<lparr>trace := trace w @ [Fs (ReadFile profileURLsPath), Console m]\<rparr>)"
proof -
  have "\<exists>m. getProfileURLs env w
               = (Inr [], w\<lparr>trace := trace w @ [Fs (ReadFile profileURLsPath), Console m]\<rparr>)"
    using assms
    by (auto simp: getProfileURLs_def fs_readFile_def fs_request_def io_catch_def io_bind_def
          io_seq_def io_return_def console_def emit_def parseUrls_empty)
  then obtain m where g: "getProfileURLs env w
               = (Inr [], w\<lparr>trace := trace w @ [Fs (ReadFile profileURLsPath), Console m]\<rparr>)"
    by blast
  then have "proccessProfiles env w
               = (Inr (), w\<lparr>trace := trace w @ [Fs (ReadFile profileURLsPath), Console m]\<rparr>)"
    by (simp add: proccessProfiles_def io_bind_def profilesLoop.simps)
  with g show ?thesis by blast
qed

theorem unreadable_target_list_witness:
  "textFiles emptyWorld profileURLsPath = None
   \<and> fst (getProfileURLs quietEnv emptyWorld) = Inr []
   \<and> fst (proccessProfiles quietEnv emptyWorld) = Inr ()
   \<and> textFiles (emptyWorld\<lparr>textFiles := (\<lambda>p. Some [])\<rparr>) profileURLsPath = Some []
   \<and> fst (proccessProfiles quietEnv (emptyWorld\<lparr>textFiles := (\<lambda>p. Some [])\<rparr>)) = Inr ()"
proof -
  have a: "textFiles emptyWorld profileURLsPath = None" by (simp add: emptyWorld_def)
  have b: "textFiles (emptyWorld\<lparr>textFiles := (\<lambda>p. Some [])\<rparr>) profileURLsPath = Some []"
    by simp
  from unreadable_target_list [of quietEnv emptyWorld] a
  have 1: "fst (getProfileURLs quietEnv emptyWorld) = Inr []
           \<and> fst (proccessProfiles quietEnv emptyWorld) = Inr ()" by auto
  from unreadable_target_list [of quietEnv "emptyWorld\<lparr>textFiles := (\<lambda>p. Some [])\<rparr>"] b
  have 2: "fst (proccessProfiles quietEnv (emptyWorld\<lparr>textFiles := (\<lambda>p. Some [])\<rparr>)) = Inr ()"
    by auto
  from a b 1 2 show ?thesis by simp
qed

section \<open>The newest candidate\<close>

lemma set_insert_sorted: "set (insert_sorted cmp x ys) = insert x (set ys)"
  by (induction ys) auto

lemma set_array_sort: "set (array_sort cmp xs) = set xs"
  by (induction xs) (simp_all add: array_sort_def set_insert_sorted)

lemma sorted_insert_sorted:
  "sorted_wrt (\<lambda>a b. time b \<le> time a) ys
   \<Longrightarrow> sorted_wrt (\<lambda>a b. time b \<le> time a) (insert_sorted byTimeDesc x ys)"
  by (induction ys) (auto simp: set_insert_sorted byTimeDesc_def)

lemma sorted_array_sort: "sorted_wrt (\<lambda>a b. time b \<le> time a) (array_sort byTimeDesc xs)"
proof (induction xs)
  case Nil
  show ?case by (simp add: array_sort_def)
next
  case (Cons x xs)
  then have "sorted_wrt (\<lambda>a b. time b \<le> time a)
               (insert_sorted byTimeDesc x (array_sort byTimeDesc xs))"
    by (rule sorted_insert_sorted)
  then show ?case by (simp add: array_sort_def)
qed

lemma array_sort_newest:
  assumes "xs \<noteq> []"
  shows "\<exists>s rest. array_sort byTimeDesc xs = s # rest \<and> s \<in> set xs
                  \<and> (\<forall>y\<in>set xs. time y \<le> time s)"
proof (cases "array_sort byTimeDesc xs")
  case Nil
  then have "set (array_sort byTimeDesc xs) = {}" by simp
  with assms show ?thesis by (simp add: set_array_sort)
next
  case (Cons s rest)
  have m: "set (s # rest) = set xs" using Cons set_array_sort [of byTimeDesc xs] by simp
  have "sorted_wrt (\<lambda>a b. time b \<le> time a) (s # rest)"
    using Cons sorted_array_sort [of xs] by simp
  then have "\<forall>y\<in>set rest. time y \<le> time s" by simp
  with m have "\<forall>y\<in>set xs. time y \<le> time s" by auto
  moreover from m have "s \<in> set xs" by auto
  ultimately show ?thesis using Cons by blast
qed

lemma mtimeIn_trace [simp]: "mtimeIn (w\<lparr>trace := t\<rparr>) d f = mtimeIn w d f"
  by (simp add: mtimeIn_def lookup_file_def)

lemma statAll_ok:
  assumes "dirs w d = Some l" and "\<forall>g. \<not> fsFault env (Stat d g) (clock w)"
    and "set fs \<subseteq> fst ` set l"
  shows "statAll env d fs w
           = (Inr (map (\<lambda>f. \<lparr>name = f, time = mtimeIn w d f\<rparr>) fs),
              w\<lparr>trace := trace w @ map (\<lambda>f. Fs (Stat d f)) fs\<rparr>)"
  using assms
proof (induction fs arbitrary: w)
  case Nil
  show ?case by (simp add: io_return_def)
next
  case (Cons f fs)
  from Cons.prems(3) have "f \<in> fst ` set l" by simp
  then obtain x where x: "map_of l f = Some x"
    by (metis domIff dom_map_of_conv_image_fst not_Some_eq)
  let ?w1 = "w\<lparr>trace := trace w @ [Fs (Stat d f)]\<rparr>"
  have s: "fs_stat env d f w = (Inr (mtimeIn w d f), ?w1)"
    using Cons.prems(1,2) x
    by (simp add: fs_stat_def fs_request_def emit_def lookup_file_def mtimeIn_def)
  have "statAll env d fs ?w1
           = (Inr (map (\<lambda>f. \<lparr>name = f, time = mtimeIn ?w1 d f\<rparr>) fs),
              ?w1\<lparr>trace := trace ?w1 @ map (\<lambda>f. Fs (Stat d f)) fs\<rparr>)"
    using Cons.prems by (intro Cons.IH) simp_all
  with s show ?case by (simp add: io_bind_def io_return_def)
qed

lemma pdfsIn_names: "dirs w d = Some l \<Longrightarrow> set (pdfsIn w d) \<subseteq> fst ` set l"
  by (auto simp: pdfsIn_def)

text \<open>
  The common prefix of \<^verbatim>\<open>waitForDownload\<close> and \<^verbatim>\<open>renameDownloadedPdf\<close>: list the
  folder, keep the candidates, ask for their times, sort.
\<close>

lemma newest_candidate:
  assumes "pdfsIn w d \<noteq> []"
  shows "\<exists>s rest. array_sort byTimeDesc (map (\<lambda>f. \<lparr>name = f, time = mtimeIn w d f\<rparr>) (pdfsIn w d))
                    = s # rest
           \<and> name s \<in> set (pdfsIn w d)
           \<and> (\<forall>g\<in>set (pdfsIn w d). mtimeIn w d g \<le> mtimeIn w d (name s))"
proof -
  let ?xs = "map (\<lambda>f. \<lparr>name = f, time = mtimeIn w d f\<rparr>) (pdfsIn w d)"
  from assms have "?xs \<noteq> []" by simp
  from array_sort_newest [OF this] obtain s rest
    where s: "array_sort byTimeDesc ?xs = s # rest" "s \<in> set ?xs" "\<forall>y\<in>set ?xs. time y \<le> time s"
    by blast
  from s(2) have n: "name s \<in> set (pdfsIn w d)" "time s = mtimeIn w d (name s)" by auto
  have "\<forall>g\<in>set (pdfsIn w d). mtimeIn w d g \<le> mtimeIn w d (name s)"
  proof
    fix g assume "g \<in> set (pdfsIn w d)"
    then have "\<lparr>name = g, time = mtimeIn w d g\<rparr> \<in> set ?xs" by simp
    with s(3) have "time \<lparr>name = g, time = mtimeIn w d g\<rparr> \<le> time s" by blast
    with n(2) show "mtimeIn w d g \<le> mtimeIn w d (name s)" by simp
  qed
  with s(1) n(1) show ?thesis by blast
qed

lemma scanDownloads_ok:
  assumes "array_sort byTimeDesc (map (\<lambda>f. \<lparr>name = f, time = mtimeIn w d f\<rparr>) (pdfsIn w d))
             = s # rest"
    and "\<not> fsFault env (Readdir d) (clock w)"
    and "\<forall>g. \<not> fsFault env (Stat d g) (clock w)"
  shows "scanDownloads env d w
           = (Inr (Some (name s)),
              w\<lparr>trace := trace w @ Fs (Readdir d) # map (\<lambda>f. Fs (Stat d f)) (pdfsIn w d)\<rparr>)"
proof -
  from assms(1) have ne: "pdfsIn w d \<noteq> []" by (auto simp: array_sort_def)
  then obtain l where l: "dirs w d = Some l" by (auto simp: pdfsIn_def split: option.splits)
  then have p: "pdfsIn w d = filter isPdf (map fst l)" by (simp add: pdfsIn_def)
  let ?w1 = "w\<lparr>trace := trace w @ [Fs (Readdir d)]\<rparr>"
  have r: "fs_readdir env d w = (Inr (map fst l), ?w1)"
    using l assms(2) by (simp add: fs_readdir_def fs_request_def emit_def)
  have "statAll env d (pdfsIn w d) ?w1
           = (Inr (map (\<lambda>f. \<lparr>name = f, time = mtimeIn ?w1 d f\<rparr>) (pdfsIn w d)),
              ?w1\<lparr>trace := trace ?w1 @ map (\<lambda>f. Fs (Stat d f)) (pdfsIn w d)\<rparr>)"
    using l assms(3) pdfsIn_names [OF l] by (intro statAll_ok [where l = l]) simp_all
  then have st: "statAll env d (pdfsIn w d) ?w1
           = (Inr (map (\<lambda>f. \<lparr>name = f, time = mtimeIn w d f\<rparr>) (pdfsIn w d)),
              w\<lparr>trace := trace w @ Fs (Readdir d) # map (\<lambda>f. Fs (Stat d f)) (pdfsIn w d)\<rparr>)"
    by simp
  show ?thesis
    using r st ne assms(1) p
    by (simp add: scanDownloads_def io_bind_def io_return_def Let_def)
qed

lemma waitForDownload_ok:
  assumes "array_sort byTimeDesc (map (\<lambda>f. \<lparr>name = f, time = mtimeIn w d f\<rparr>) (pdfsIn w d))
             = s # rest"
    and "\<not> fsFault env (Readdir d) (clock w)"
    and "\<forall>g. \<not> fsFault env (Stat d g) (clock w)" and "0 < timeout"
  shows "waitForDownload env d timeout w
           = (Inr (Some (name s)),
              w\<lparr>trace := trace w @ Fs (Readdir d) # map (\<lambda>f. Fs (Stat d f)) (pdfsIn w d)\<rparr>)"
  using scanDownloads_ok [OF assms(1,2,3)] assms(4)
  by (simp add: waitForDownload_def waitLoop.simps [of env d timeout "clock w" w] io_catch_def)

lemma renameDownloadedPdf_ok:
  assumes "array_sort byTimeDesc (map (\<lambda>f. \<lparr>name = f, time = mtimeIn w d f\<rparr>) (pdfsIn w d))
             = s # rest"
    and "\<not> fsFault env (Readdir d) (clock w)"
    and "\<forall>g. \<not> fsFault env (Stat d g) (clock w)"
  shows "\<exists>es. trace (snd (renameDownloadedPdf env profileId d w)) = trace w @ es
              \<and> renamed es \<noteq> [] \<and> set (renamed es) = {name s}"
proof -
  from assms(1) have ne: "pdfsIn w d \<noteq> []" by (auto simp: array_sort_def)
  then obtain l where l: "dirs w d = Some l" by (auto simp: pdfsIn_def split: option.splits)
  then have p: "pdfsIn w d = filter isPdf (map fst l)" by (simp add: pdfsIn_def)
  let ?w1 = "w\<lparr>trace := trace w @ [Fs (Readdir d)]\<rparr>"
  let ?pre = "Fs (Readdir d) # map (\<lambda>f. Fs (Stat d f)) (pdfsIn w d)"
  let ?w2 = "w\<lparr>trace := trace w @ ?pre\<rparr>"
  have r: "fs_readdir env d w = (Inr (map fst l), ?w1)"
    using l assms(2) by (simp add: fs_readdir_def fs_request_def emit_def)
  have "statAll env d (pdfsIn w d) ?w1
           = (Inr (map (\<lambda>f. \<lparr>name = f, time = mtimeIn ?w1 d f\<rparr>) (pdfsIn w d)),
              ?w1\<lparr>trace := trace ?w1 @ map (\<lambda>f. Fs (Stat d f)) (pdfsIn w d)\<rparr>)"
    using l assms(3) pdfsIn_names [OF l] by (intro statAll_ok [where l = l]) simp_all
  then have st: "statAll env d (pdfsIn w d) ?w1
           = (Inr (map (\<lambda>f. \<lparr>name = f, time = mtimeIn w d f\<rparr>) (pdfsIn w d)), ?w2)"
    by simp
  let ?new = "profileId @ ''.pdf''"
  let ?stamped = "profileId @ ''_'' @ decimal (clock w) @ ''.pdf''"
  let ?probe = "io_seq (fs_access env d ?new)
                    (io_seq (console (AlreadyExists ?new))
                    (io_bind now (\<lambda>timestamp.
                       let timestampedName = profileId @ ''_'' @ decimal timestamp @ ''.pdf'' in
                       io_seq (fs_rename env d (name s) timestampedName)
                      (io_seq (console (RenamedTo timestampedName))
                              (io_return True))))) :: (bool, 'a) io"
  let ?fallback = "\<lambda>e :: exn. io_seq (fs_rename env d (name s) ?new)
                      (io_seq (console (RenamedTo ?new))
                              (io_return True)) :: (bool, 'a) io"
  let ?report = "\<lambda>e. io_seq (console (ErrorRenamingPdf (message e))) (io_return False) :: (bool, 'a) io"
  have eq: "renameDownloadedPdf env profileId d w
              = io_catch (io_catch ?probe ?fallback) ?report ?w2"
    using r st ne assms(1) p
    by (simp add: renameDownloadedPdf_def io_bind_def io_catch_def Let_def)
  have c2: "clock ?w2 = clock w" by simp
  have fb: "\<And>w3. \<exists>es. trace (snd (io_catch (?fallback (Error [])) ?report w3)) = trace w3 @ es
                          \<and> renamed es = [name s]"
    by (auto simp: io_catch_def io_seq_def io_bind_def io_return_def fs_rename_def fs_request_def
          console_def emit_def renamed_def split: option.splits)
  have "\<exists>es. trace (snd (io_catch (io_catch ?probe ?fallback) ?report ?w2)) = trace ?w2 @ es
              \<and> renamed es \<noteq> [] \<and> set (renamed es) = {name s}"
  proof (cases "fst (fs_access env d ?new ?w2)")
    case (Inl e)
    let ?w3 = "emit (Fs (Access d ?new)) ?w2"
    have a: "fs_access env d ?new ?w2 = (Inl e, ?w3)"
      using Inl by (auto simp: fs_access_def fs_request_def split: option.splits if_splits)
    then have "io_catch (io_catch ?probe ?fallback) ?report ?w2
                 = io_catch (?fallback e) ?report ?w3"
      by (simp add: io_catch_def io_seq_def io_bind_def)
    moreover from fb [of ?w3] obtain es
      where "trace (snd (io_catch (?fallback e) ?report ?w3)) = trace ?w3 @ es"
        "renamed es = [name s]" by blast
    ultimately have "trace (snd (io_catch (io_catch ?probe ?fallback) ?report ?w2))
                       = trace ?w2 @ (Fs (Access d ?new) # es)
                     \<and> renamed (Fs (Access d ?new) # es) = [name s]"
      by (simp add: emit_def renamed_def)
    then show ?thesis by (intro exI [of _ "Fs (Access d ?new) # es"]) simp
  next
    case (Inr u)
    let ?w3 = "emit (Console (AlreadyExists ?new)) (emit (Fs (Access d ?new)) ?w2)"
    have a: "fs_access env d ?new ?w2 = (Inr (), emit (Fs (Access d ?new)) ?w2)"
      using Inr by (auto simp: fs_access_def fs_request_def split: option.splits if_splits)
    obtain q w4 where q: "fs_rename env d (name s) ?stamped ?w3 = (q, w4)"
      by (cases "fs_rename env d (name s) ?stamped ?w3")
    have t4: "trace w4 = trace ?w3 @ [Fs (Rename d (name s) ?stamped)]"
      using q by (auto simp: fs_rename_def fs_request_def emit_def split: option.splits if_splits)
    let ?head = "[Fs (Access d ?new), Console (AlreadyExists ?new), Fs (Rename d (name s) ?stamped)]"
    have t4': "trace w4 = trace ?w2 @ ?head" using t4 by (simp add: emit_def)
    show ?thesis
    proof (cases q)
      case (Inr v)
      have "io_catch (io_catch ?probe ?fallback) ?report ?w2
              = (Inr True, emit (Console (RenamedTo ?stamped)) w4)"
        using a q Inr
        by (simp add: io_catch_def io_seq_def io_bind_def io_return_def console_def now_def
              emit_def Let_def)
      then have "trace (snd (io_catch (io_catch ?probe ?fallback) ?report ?w2))
                   = trace ?w2 @ (?head @ [Console (RenamedTo ?stamped)])"
        using t4' by (simp add: emit_def)
      moreover have "renamed (?head @ [Console (RenamedTo ?stamped)]) = [name s]"
        by (simp add: renamed_def)
      ultimately show ?thesis
        by (intro exI [of _ "?head @ [Console (RenamedTo ?stamped)]"]) simp
    next
      case (Inl e)
      have "io_catch (io_catch ?probe ?fallback) ?report ?w2
              = io_catch (?fallback e) ?report w4"
        using a q Inl
        by (simp add: io_catch_def io_seq_def io_bind_def io_return_def console_def now_def
              emit_def Let_def)
      moreover from fb [of w4] obtain es
        where "trace (snd (io_catch (?fallback e) ?report w4)) = trace w4 @ es"
          "renamed es = [name s]" by blast
      ultimately have "trace (snd (io_catch (io_catch ?probe ?fallback) ?report ?w2))
                         = trace ?w2 @ (?head @ es)
                       \<and> renamed (?head @ es) = [name s, name s]"
        using t4' by (simp add: renamed_def)
      then show ?thesis by (intro exI [of _ "?head @ es"]) simp
    qed
  qed
  then obtain es where "trace (snd (renameDownloadedPdf env profileId d w)) = trace ?w2 @ es"
    "renamed es \<noteq> []" "set (renamed es) = {name s}" using eq by auto
  then have "trace (snd (renameDownloadedPdf env profileId d w)) = trace w @ (?pre @ es)
             \<and> renamed (?pre @ es) \<noteq> [] \<and> set (renamed (?pre @ es)) = {name s}"
    by (simp add: renamed_def comp_def)
  then show ?thesis by blast
qed

text \<open>
  Claim C5.  Let the folder hold at least one qualifying candidate, and let the
  operating system answer the listing of the folder and the \<^verbatim>\<open>stat\<close> of its files.
  Then there is a candidate \<open>f\<close> whose modification time is the latest among the
  candidates such that \<^verbatim>\<open>waitForDownload\<close> returns \<open>f\<close> (at its first poll) and every
  rename that \<^verbatim>\<open>renameDownloadedPdf\<close> asks for, of which there is at least one, moves
  \<open>f\<close>.
\<close>

theorem newest_candidate_selected:
  assumes "pdfsIn w d \<noteq> []"
    and "\<not> fsFault env (Readdir d) (clock w)"
    and "\<forall>g. \<not> fsFault env (Stat d g) (clock w)"
    and "0 < timeout"
  shows "\<exists>f es. f \<in> set (pdfsIn w d)
           \<and> (\<forall>g\<in>set (pdfsIn w d). mtimeIn w d g \<le> mtimeIn w d f)
           \<and> fst (waitForDownload env d timeout w) = Inr (Some f)
           \<and> trace (snd (renameDownloadedPdf env profileId d w)) = trace w @ es
           \<and> renamed es \<noteq> [] \<and> set (renamed es) = {f}"
proof -
  from newest_candidate [OF assms(1)] obtain s rest
    where s: "array_sort byTimeDesc (map (\<lambda>f. \<lparr>name = f, time = mtimeIn w d f\<rparr>) (pdfsIn w d))
                = s # rest"
      "name s \<in> set (pdfsIn w d)"
      "\<forall>g\<in>set (pdfsIn w d). mtimeIn w d g \<le> mtimeIn w d (name s)"
    by blast
  from waitForDownload_ok [OF s(1) assms(2,3,4)]
  have w: "fst (waitForDownload env d timeout w) = Inr (Some (name s))" by simp
  from renameDownloadedPdf_ok [OF s(1) assms(2,3)] obtain es
    where "trace (snd (renameDownloadedPdf env profileId d w)) = trace w @ es"
      "renamed es \<noteq> []" "set (renamed es) = {name s}" by blast
  with s(2,3) w show ?thesis by blast
qed

lemma sample_pdfs: "pdfsIn sampleWorld DOWNLOAD_FOLDER = [''old.pdf'', ''Profile.pdf'']"
  by (simp add: pdfsIn_def sampleWorld_def isPdf_def suffix_to_prefix)

lemma sample_mtimes:
  "mtimeIn sampleWorld DOWNLOAD_FOLDER ''old.pdf'' = 1000"
  "mtimeIn sampleWorld DOWNLOAD_FOLDER ''Profile.pdf'' = 2000"
  by (simp_all add: mtimeIn_def lookup_file_def sampleWorld_def)

theorem newest_candidate_selected_witness:
  "pdfsIn sampleWorld DOWNLOAD_FOLDER \<noteq> []
   \<and> \<not> fsFault quietEnv (Readdir DOWNLOAD_FOLDER) (clock sampleWorld)
   \<and> (\<forall>g. \<not> fsFault quietEnv (Stat DOWNLOAD_FOLDER g) (clock sampleWorld))
   \<and> fst (waitForDownload quietEnv DOWNLOAD_FOLDER 30000 sampleWorld) = Inr (Some ''Profile.pdf'')
   \<and> (\<exists>es. trace (snd (renameDownloadedPdf quietEnv ''jane-smith'' DOWNLOAD_FOLDER sampleWorld))
              = trace sampleWorld @ es \<and> set (renamed es) = {''Profile.pdf''})"
proof -
  have a: "pdfsIn sampleWorld DOWNLOAD_FOLDER \<noteq> []" by (simp add: sample_pdfs)
  have b: "\<not> fsFault quietEnv (Readdir DOWNLOAD_FOLDER) (clock sampleWorld)"
    by (simp add: quietEnv_def)
  have c: "\<forall>g. \<not> fsFault quietEnv (Stat DOWNLOAD_FOLDER g) (clock sampleWorld)"
    by (simp add: quietEnv_def)
  from newest_candidate_selected [OF a b c, of 30000 "''jane-smith''"] obtain f es
    where f: "f \<in> set (pdfsIn sampleWorld DOWNLOAD_FOLDER)"
      "\<forall>g\<in>set (pdfsIn sampleWorld DOWNLOAD_FOLDER).
          mtimeIn sampleWorld DOWNLOAD_FOLDER g \<le> mtimeIn sampleWorld DOWNLOAD_FOLDER f"
      "fst (waitForDownload quietEnv DOWNLOAD_FOLDER 30000 sampleWorld) = Inr (Some f)"
      "trace (snd (renameDownloadedPdf quietEnv ''jane-smith'' DOWNLOAD_FOLDER sampleWorld))
         = trace sampleWorld @ es" "set (renamed es) = {f}"
    by auto
  from f(1,2) have "f = ''Profile.pdf''"
    by (auto simp: sample_pdfs sample_mtimes)
  with a b c f(3,4,5) show ?thesis by blast
qed

section \<open>Waiting in vain\<close>

lemma poll_without_candidate:
  assumes "pdfsIn w d = []"
  shows "io_catch (scanDownloads env d) (\<lambda>e. io_return None) w
           = (Inr None, w\<lparr>trace := trace w @ [Fs (Readdir d)]\<rparr>)"
  using assms
  by (auto simp: scanDownloads_def fs_readdir_def fs_request_def io_catch_def io_bind_def
        io_return_def emit_def pdfsIn_def Let_def split: option.splits)

lemma sleeping_trace: "sleeping env ms (w\<lparr>trace := t\<rparr>) = (sleeping env ms w)\<lparr>trace := t\<rparr>"
  by (simp add: sleeping_def sleep_def)

lemma sleeping_funpow_trace:
  "(sleeping env ms ^^ k) (w\<lparr>trace := t\<rparr>) = ((sleeping env ms ^^ k) w)\<lparr>trace := t\<rparr>"
  by (induction k) (simp_all add: sleeping_trace)

lemma pdfsIn_trace [simp]: "pdfsIn (w\<lparr>trace := t\<rparr>) d = pdfsIn w d"
  by (simp add: pdfsIn_def)

lemma clock_sleeping [simp]: "clock (sleeping env ms w) = clock w + ms"
  by (simp add: sleeping_def sleep_def)

lemma trace_sleeping [simp]: "trace (sleeping env ms w) = trace w"
  by (simp add: sleeping_def sleep_def)

lemma polls_left_step:
  fixes c s t :: nat
  assumes "c - s < t" and "s \<le> c"
  shows "(s + t - c + 499) div 500 = Suc ((s + t - (c + 500) + 499) div 500)"
proof -
  define x where "x = s + t - c"
  from assms have x1: "1 \<le> x" unfolding x_def by linarith
  have e: "s + t - (c + 500) = x - 500" unfolding x_def by simp
  have "(x + 499) div 500 = Suc ((x - 500 + 499) div 500)"
  proof (cases "500 \<le> x")
    case True
    then have "x + 499 = (x - 500 + 499) + 500" by simp
    then have "(x + 499) div 500 = ((x - 500 + 499) + 500) div 500" by (rule arg_cong)
    also have "\<dots> = Suc ((x - 500 + 499) div 500)" by simp
    finally show ?thesis .
  next
    case False
    with x1 have "x + 499 = (x - 1) + 500" and l: "x - 1 < 500" by simp_all
    then have "(x + 499) div 500 = ((x - 1) + 500) div 500" by (simp only:)
    also have "\<dots> = Suc ((x - 1) div 500)" by simp
    also have "(x - 1) div 500 = 0" using l by (rule div_less)
    finally have a: "(x + 499) div 500 = Suc 0" .
    from False have "x - 500 + 499 = 499" by simp
    then have "(x - 500 + 499) div 500 = 0" by simp
    with a show ?thesis by (simp only:)
  qed
  then show ?thesis unfolding x_def [symmetric] e .
qed

lemma waitLoop_in_vain:
  assumes "\<forall>k. clock w + k * 500 - s < t \<longrightarrow> pdfsIn ((sleeping env 500 ^^ k) w) d = []"
    and "s \<le> clock w"
  shows "\<exists>w'. waitLoop env d t s w = (Inr None, w')
           \<and> clock w' = clock w + 500 * ((s + t - clock w + 499) div 500)
           \<and> trace w' = trace w @ replicate ((s + t - clock w + 499) div 500) (Fs (Readdir d))"
  using assms
proof (induction "(s + t - clock w + 499) div 500" arbitrary: w)
  case 0
  then have "\<not> clock w - s < t" by simp
  with 0 show ?case by (simp add: waitLoop.simps)
next
  case (Suc n)
  have run: "clock w - s < t"
  proof (rule ccontr)
    assume "\<not> clock w - s < t"
    with Suc.prems(2) have "s + t - clock w = 0" by simp
    with Suc.hyps(2) show False by simp
  qed
  from Suc.prems(1) [rule_format, of 0] run have none: "pdfsIn w d = []" by simp
  let ?w1 = "w\<lparr>trace := trace w @ [Fs (Readdir d)]\<rparr>"
  let ?w2 = "sleeping env 500 ?w1"
  have step: "waitLoop env d t s w = waitLoop env d t s ?w2"
    using run poll_without_candidate [OF none, of env]
    by (subst waitLoop.simps) (simp add: sleeping_def)
  have w2: "?w2 = (sleeping env 500 w)\<lparr>trace := trace w @ [Fs (Readdir d)]\<rparr>"
    by (rule sleeping_trace)
  have n: "n = (s + t - clock ?w2 + 499) div 500"
    using Suc.hyps(2) polls_left_step [OF run Suc.prems(2)] by simp
  have h: "\<forall>k. clock ?w2 + k * 500 - s < t \<longrightarrow> pdfsIn ((sleeping env 500 ^^ k) ?w2) d = []"
  proof (intro allI impI)
    fix k assume "clock ?w2 + k * 500 - s < t"
    then have "clock w + Suc k * 500 - s < t" by (simp add: add.commute add.left_commute)
    with Suc.prems(1) have "pdfsIn ((sleeping env 500 ^^ Suc k) w) d = []" by blast
    then have "pdfsIn ((sleeping env 500 ^^ k) (sleeping env 500 w)) d = []"
      by (simp add: funpow_swap1)
    then show "pdfsIn ((sleeping env 500 ^^ k) ?w2) d = []"
      by (simp add: w2 sleeping_funpow_trace)
  qed
  have "s \<le> clock ?w2" using Suc.prems(2) by simp
  from Suc.hyps(1) [OF n h this] obtain w'
    where w': "waitLoop env d t s ?w2 = (Inr None, w')"
      "clock w' = clock ?w2 + 500 * ((s + t - clock ?w2 + 499) div 500)"
      "trace w' = trace ?w2 @ replicate ((s + t - clock ?w2 + 499) div 500) (Fs (Readdir d))"
    by blast
  from w'(2) have "clock w' = clock ?w2 + 500 * n" by (simp only: n [symmetric])
  then have "clock w' = clock w + 500 * Suc n" by simp
  then have c: "clock w' = clock w + 500 * ((s + t - clock w + 499) div 500)"
    by (simp only: Suc.hyps(2))
  from w'(3) have "trace w' = trace ?w2 @ replicate n (Fs (Readdir d))"
    by (simp only: n [symmetric])
  then have "trace w' = trace w @ replicate (Suc n) (Fs (Readdir d))"
    by (simp add: replicate_append_same [symmetric])
  then have r: "trace w' = trace w @ replicate ((s + t - clock w + 499) div 500) (Fs (Readdir d))"
    by (simp only: Suc.hyps(2))
  from step w'(1) c r show ?case by simp
qed

lemma waitForDownload_in_vain:
  assumes "\<forall>k. k * 500 < timeout \<longrightarrow> pdfsIn ((sleeping env 500 ^^ k) w) d = []"
  shows "\<exists>w'. waitForDownload env d timeout w = (Inr None, w')
           \<and> clock w' = clock w + 500 * ((timeout + 499) div 500)
           \<and> trace w' = trace w @ replicate ((timeout + 499) div 500) (Fs (Readdir d))"
proof -
  have "\<forall>k. clock w + k * 500 - clock w < timeout
            \<longrightarrow> pdfsIn ((sleeping env 500 ^^ k) w) d = []"
    using assms by simp
  from waitLoop_in_vain [OF this le_refl] show ?thesis
    by (simp add: waitForDownload_def)
qed

text \<open>
  Claim C8.  Suppose that at none of the polls, which happen every 500 ms from the call
  until \<open>timeout\<close> ms have passed, the folder holds a qualifying candidate.  Then
  \<^verbatim>\<open>waitForDownload\<close> returns \<^verbatim>\<open>null\<close> without throwing, after one \<^verbatim>\<open>readdir\<close> per
  poll and with the clock advanced by 500 ms per poll.  Its caller in
  \<^verbatim>\<open>proccessProfiles\<close> (download folder, 30000 ms) then prints the timeout line and
  returns normally, without any rename, so the round ends and the loop goes on.
\<close>

theorem download_timeout_is_reported:
  assumes "\<forall>k. k * 500 < timeout \<longrightarrow> pdfsIn ((sleeping env 500 ^^ k) w) d = []"
  shows "(\<exists>w'. waitForDownload env d timeout w = (Inr None, w')
           \<and> clock w' = clock w + 500 * ((timeout + 499) div 500)
           \<and> trace w' = trace w @ replicate ((timeout + 499) div 500) (Fs (Readdir d)))
       \<and> (d = DOWNLOAD_FOLDER \<and> timeout = 30000 \<longrightarrow>
            (\<exists>w'. downloadReported env profileId w = (Inr (), w')
               \<and> trace w' = trace w @ replicate 60 (Fs (Readdir DOWNLOAD_FOLDER))
                                     @ [Console DownloadTimeout]))"
proof (intro conjI impI)
  show "\<exists>w'. waitForDownload env d timeout w = (Inr None, w')
           \<and> clock w' = clock w + 500 * ((timeout + 499) div 500)
           \<and> trace w' = trace w @ replicate ((timeout + 499) div 500) (Fs (Readdir d))"
    using assms by (rule waitForDownload_in_vain)
next
  assume "d = DOWNLOAD_FOLDER \<and> timeout = 30000"
  with waitForDownload_in_vain [OF assms] obtain w1
    where "waitForDownload env DOWNLOAD_FOLDER 30000 w = (Inr None, w1)"
      "trace w1 = trace w @ replicate 60 (Fs (Readdir DOWNLOAD_FOLDER))"
    by auto
  then have "downloadReported env profileId w = (Inr (), emit (Console DownloadTimeout) w1)
      \<and> trace (emit (Console DownloadTimeout) w1)
          = trace w @ replicate 60 (Fs (Readdir DOWNLOAD_FOLDER)) @ [Console DownloadTimeout]"
    by (simp add: downloadReported_def io_bind_def truthy_def console_def emit_def)
  then show "\<exists>w'. downloadReported env profileId w = (Inr (), w')
               \<and> trace w' = trace w @ replicate 60 (Fs (Readdir DOWNLOAD_FOLDER))
                                     @ [Console DownloadTimeout]"
    by blast
qed

lemma empty_folder_stays_empty: "dirs ((sleeping quietEnv 500 ^^ k) emptyWorld) = (\<lambda>d. None)"
  by (induction k) (simp_all add: sleeping_def sleep_def quietEnv_def emptyWorld_def)

theorem download_timeout_is_reported_witness:
  "list_all (\<lambda>k. pdfsIn ((sleeping quietEnv 500 ^^ k) emptyWorld) DOWNLOAD_FOLDER = []) [0..<60]
   \<and> fst (waitForDownload quietEnv DOWNLOAD_FOLDER 30000 emptyWorld) = Inr None
   \<and> fst (downloadReported quietEnv ''jane-smith'' emptyWorld) = Inr ()
   \<and> last (trace (snd (downloadReported quietEnv ''jane-smith'' emptyWorld))) = Console DownloadTimeout"
proof -
  have h: "\<forall>k. k * 500 < 30000
             \<longrightarrow> pdfsIn ((sleeping quietEnv 500 ^^ k) emptyWorld) DOWNLOAD_FOLDER = []"
    by (simp add: pdfsIn_def empty_folder_stays_empty)
  from download_timeout_is_reported [OF h, of "''jane-smith''"]
  obtain w1 w2 where 1: "waitForDownload quietEnv DOWNLOAD_FOLDER 30000 emptyWorld = (Inr None, w1)"
    and 2: "downloadReported quietEnv ''jane-smith'' emptyWorld = (Inr (), w2)"
    and 3: "trace w2 = trace emptyWorld @ replicate 60 (Fs (Readdir DOWNLOAD_FOLDER))
                        @ [Console DownloadTimeout]"
    by blast
  from 3 have "last (trace w2) = Console DownloadTimeout" by (simp only: last_appendR last_snoc append_assoc [symmetric])
  moreover have "list_all (\<lambda>k. pdfsIn ((sleeping quietEnv 500 ^^ k) emptyWorld) DOWNLOAD_FOLDER = [])
                   [0..<60]"
    by (simp add: list_all_iff pdfsIn_def empty_folder_stays_empty)
  ultimately show ?thesis using 1 2 by (simp only: fst_conv snd_conv simp_thms)
qed

text \<open>
  The second call of \<^verbatim>\<open>waitForDownload\<close>, on the fallback path, has no \<^verbatim>\<open>else\<close>
  branch: when the wait is in vain the round ends normally there as well, but without
  the timeout line.
\<close>

lemma fallback_timeout_is_silent:
  assumes "d_findElement env savePdfAnywhere (browser w) = (Inr el, b1)"
    and "d_executeClick env el b1 = (Inr (), b2)"
    and "\<forall>k. k * 500 < 30000
           \<longrightarrow> pdfsIn ((sleeping env 500 ^^ k) (w\<lparr>browser := b2\<rparr>)) DOWNLOAD_FOLDER = []"
  shows "\<exists>w'. alternativePath env profileId w = (Inr (), w')
           \<and> trace w' = trace w @ [Call (FindElement savePdfAnywhere), Call (ExecuteClick el),
                                    Console DownloadInitiatedAlt]
                             @ replicate 60 (Fs (Readdir DOWNLOAD_FOLDER))"
proof -
  let ?t = "trace w @ [Call (FindElement savePdfAnywhere), Call (ExecuteClick el),
                       Console DownloadInitiatedAlt]"
  let ?w3 = "w\<lparr>browser := b2, trace := ?t\<rparr>"
  have "\<forall>k. k * 500 < 30000 \<longrightarrow> pdfsIn ((sleeping env 500 ^^ k) ?w3) DOWNLOAD_FOLDER = []"
    using assms(3)
      sleeping_funpow_trace [where env = env and ms = 500 and w = "w\<lparr>browser := b2\<rparr>" and t = ?t]
    by simp
  from waitForDownload_in_vain [OF this] obtain w1
    where w1: "waitForDownload env DOWNLOAD_FOLDER 30000 ?w3 = (Inr None, w1)"
      "trace w1 = ?t @ replicate 60 (Fs (Readdir DOWNLOAD_FOLDER))"
    by auto
  have "alternativePath env profileId w = (Inr (), w1)"
    using assms(1,2) w1(1)
    by (simp add: alternativePath_def io_bind_def io_seq_def io_return_def driver_call_def
          console_def emit_def truthy_def)
  with w1(2) show ?thesis by simp
qed

section \<open>A collision that overwrites\<close>

lemma isPdf_pdf: "isPdf (s @ ''.pdf'')"
proof -
  have "\<not> suffix ''.crdownload'' (s @ ''.pdf'')"
  proof
    assume "suffix ''.crdownload'' (s @ ''.pdf'')"
    then obtain p where "s @ ''.pdf'' = p @ ''.crdownload''" by (auto simp: suffix_def)
    then have "last (s @ ''.pdf'') = last (p @ ''.crdownload'')" by simp
    then show False by simp
  qed
  then show ?thesis by (simp add: isPdf_def suffix_def)
qed

lemma length_longProfileId: "length longProfileId = 245"
  by (simp add: longProfileId_def)

lemma long_name_differs:
  "longProfileId @ ''.pdf'' \<noteq> ''Profile.pdf''" "''Profile.pdf'' \<noteq> longProfileId @ ''.pdf''"
proof -
  have "length (longProfileId @ ''.pdf'') \<noteq> length ''Profile.pdf''"
    by (simp add: length_longProfileId)
  then show "longProfileId @ ''.pdf'' \<noteq> ''Profile.pdf''" by metis
  then show "''Profile.pdf'' \<noteq> longProfileId @ ''.pdf''" by metis
qed

lemma decimal_stamp: "decimal 1700000000000 = ''1700000000000''"
  by (simp add: decimal.simps)

lemma timestamped_name_differs:
  "profileId @ ''_'' @ decimal timestamp @ ''.pdf'' \<noteq> profileId @ ''.pdf''"
  by simp

text \<open>
  Claim C4 (the code at the failing input).  The folder holds
  \<^verbatim>\<open><id>.pdf\<close>, the first export, and \<^verbatim>\<open>Profile.pdf\<close>, the newer download.  The
  probe finds \<^verbatim>\<open><id>.pdf\<close>, the rename to the timestamped name is rejected because
  that name is too long, and the \<^verbatim>\<open>catch\<close> block written for the absent file renames
  the download to \<^verbatim>\<open><id>.pdf\<close>: the first export is overwritten and the operation
  reports success.
\<close>

theorem rejected_timestamp_rename_overwrites:
  "lookup_file collisionWorld DOWNLOAD_FOLDER (longProfileId @ ''.pdf'')
     = Some \<lparr>mtime = 1000, content = ''first export''\<rparr>
   \<and> renameDownloadedPdf posixEnv longProfileId DOWNLOAD_FOLDER collisionWorld
     = (Inr True,
        collisionWorld\<lparr>
          dirs := (dirs collisionWorld)(DOWNLOAD_FOLDER \<mapsto>
                    [(longProfileId @ ''.pdf'', \<lparr>mtime = 2000, content = ''second export''\<rparr>)]),
          trace := [Fs (Readdir DOWNLOAD_FOLDER),
                    Fs (Stat DOWNLOAD_FOLDER (longProfileId @ ''.pdf'')),
                    Fs (Stat DOWNLOAD_FOLDER ''Profile.pdf''),
                    Fs (Access DOWNLOAD_FOLDER (longProfileId @ ''.pdf'')),
                    Console (AlreadyExists (longProfileId @ ''.pdf'')),
                    Fs (Rename DOWNLOAD_FOLDER ''Profile.pdf''
                          (longProfileId @ ''_1700000000000.pdf'')),
                    Fs (Rename DOWNLOAD_FOLDER ''Profile.pdf'' (longProfileId @ ''.pdf'')),
                    Console (RenamedTo (longProfileId @ ''.pdf''))]\<rparr>)"
proof
  show "lookup_file collisionWorld DOWNLOAD_FOLDER (longProfileId @ ''.pdf'')
          = Some \<lparr>mtime = 1000, content = ''first export''\<rparr>"
    by (simp add: lookup_file_def collisionWorld_def)
  have p: "isPdf (longProfileId @ ''.pdf'')" "isPdf ''Profile.pdf''"
    using isPdf_pdf [of longProfileId] isPdf_pdf [of "''Profile''"] by simp_all
  show "renameDownloadedPdf posixEnv longProfileId DOWNLOAD_FOLDER collisionWorld
     = (Inr True,
        collisionWorld\<lparr>
          dirs := (dirs collisionWorld)(DOWNLOAD_FOLDER \<mapsto>
                    [(longProfileId @ ''.pdf'', \<lparr>mtime = 2000, content = ''second export''\<rparr>)]),
          trace := [Fs (Readdir DOWNLOAD_FOLDER),
                    Fs (Stat DOWNLOAD_FOLDER (longProfileId @ ''.pdf'')),
                    Fs (Stat DOWNLOAD_FOLDER ''Profile.pdf''),
                    Fs (Access DOWNLOAD_FOLDER (longProfileId @ ''.pdf'')),
                    Console (AlreadyExists (longProfileId @ ''.pdf'')),
                    Fs (Rename DOWNLOAD_FOLDER ''Profile.pdf''
                          (longProfileId @ ''_1700000000000.pdf'')),
                    Fs (Rename DOWNLOAD_FOLDER ''Profile.pdf'' (longProfileId @ ''.pdf'')),
                    Console (RenamedTo (longProfileId @ ''.pdf''))]\<rparr>)"
    using p
    by (simp add: renameDownloadedPdf_def io_bind_def io_seq_def io_catch_def io_return_def
          io_throw_def Let_def fs_readdir_def fs_stat_def fs_access_def fs_rename_def
          fs_request_def emit_def lookup_file_def console_def now_def
          collisionWorld_def emptyWorld_def posixEnv_def quietEnv_def nameTooLong_def
          NAME_MAX_def length_longProfileId long_name_differs decimal_stamp
          array_sort_def byTimeDesc_def moved_def)
qed

end
